theory Spec2Isabelle
  imports Complex_Main "HOL-Library.Multiset" "HOL-Library.Sublist"
begin

section \<open>JavaScript values and strings\<close>

text \<open>
  A JavaScript string is a sequence of UTF-16 code units; offsets, \<open>length\<close> and
  \<open>substring\<close> count code units. A code unit is modelled as a natural number, so the
  Polish letters of the patterns keep their length of one
  (\<open>U+0142 = 322\<close> for the l with stroke, \<open>U+017C = 380\<close> for the z with dot,
  \<open>U+0119 = 281\<close> for the e with ogonek, \<open>U+00F3 = 243\<close> for o acute).
\<close>

type_synonym jschar = nat
type_synonym jstring = "jschar list"

definition str :: "string \<Rightarrow> jstring" where
  "str s = map of_char s"

text \<open>A property of an object: absent (\<open>undefined\<close>), \<open>null\<close>, or a value.\<close>

datatype 'a js = Undefined | Null | Val 'a

text \<open>\<open>String.prototype.substring(a, b)\<close>: both ends are clamped to the length and swapped when out of order.\<close>

definition substring :: "jstring \<Rightarrow> nat \<Rightarrow> nat \<Rightarrow> jstring" where
  "substring s a b =
     (let a' = min a (length s); b' = min b (length s);
          lo = min a' b'; hi = max a' b'
      in take (hi - lo) (drop lo s))"

fun isPrefix :: "jstring \<Rightarrow> jstring \<Rightarrow> bool" where
  "isPrefix [] s = True"
| "isPrefix (p # ps) [] = False"
| "isPrefix (p # ps) (c # cs) = (p = c \<and> isPrefix ps cs)"

text \<open>\<open>String.prototype.includes(t)\<close>: \<open>t\<close> occurs somewhere in \<open>s\<close>.\<close>

fun includesStr :: "jstring \<Rightarrow> jstring \<Rightarrow> bool" where
  "includesStr [] t = (t = [])"
| "includesStr (c # cs) t = (isPrefix t (c # cs) \<or> includesStr cs t)"

section \<open>Regular expressions\<close>

text \<open>
  The fragment of ECMAScript regular expressions the extractors use: single code units
  (a finite list, a class of ranges, a negated class), sequence, ordered alternation,
  quantifiers \<open>{lo,hi}\<close> greedy or lazy, and capture groups. A pattern with the \<open>i\<close>
  flag is written with each letter as its pair of cases: in a non-unicode pattern
  \<open>Canonicalize\<close> maps no code unit above 127 to an ASCII one, so an ASCII letter
  matches exactly its two cases, and the classes \<open>[a-zA-Z0-9.-]\<close>, \<open>\s\<close>, \<open>\d\<close>
  and the negated classes are unchanged by the flag.
\<close>

datatype regex =
    One "jschar list"
  | Cls "(jschar \<times> jschar) list"
  | NCls "(jschar \<times> jschar) list"
  | Eps
  | Seq regex regex
  | Alt regex regex
  | Rep nat "nat option" bool regex
  | Grp nat regex

text \<open>A matcher state: the input still to be read, and the captures made so far.\<close>

type_synonym mstate = "jstring \<times> (nat \<times> jstring) list"

definition inRanges :: "(jschar \<times> jschar) list \<Rightarrow> jschar \<Rightarrow> bool" where
  "inRanges rs c = list_ex (\<lambda>r. fst r \<le> c \<and> c \<le> snd r) rs"

text \<open>
  \<open>RepeatMatcher\<close> of the ECMAScript specification, on the list of the states a
  backtracking search would reach, in the order it would try them: while \<open>lo\<close> is
  positive an iteration is compulsory; once it is zero an iteration that consumes
  nothing is rejected, and a greedy quantifier tries one more iteration before stopping,
  a lazy one stops first.
\<close>

function reps :: "(mstate \<Rightarrow> mstate list) \<Rightarrow> nat \<Rightarrow> nat option \<Rightarrow> bool \<Rightarrow> mstate \<Rightarrow> mstate list" where
  "reps f lo hi greedy x =
     (if hi = Some 0 then [x]
      else let more = concat (map (\<lambda>y. if lo = 0 \<and> length (fst x) \<le> length (fst y) then []
                                         else reps f (lo - 1) (map_option (\<lambda>h. h - 1) hi) greedy y) (f x))
           in if lo \<noteq> 0 then more else if greedy then more @ [x] else x # more)"
  by pat_completeness auto
termination
  by (relation "measures [\<lambda>(f, lo, hi, g, x). lo, \<lambda>(f, lo, hi, g, x). length (fst x)]") auto

primrec ms :: "regex \<Rightarrow> mstate \<Rightarrow> mstate list" where
  "ms (One cs) x = (case fst x of [] \<Rightarrow> [] | c # t \<Rightarrow> if c \<in> set cs then [(t, snd x)] else [])"
| "ms (Cls rs) x = (case fst x of [] \<Rightarrow> [] | c # t \<Rightarrow> if inRanges rs c then [(t, snd x)] else [])"
| "ms (NCls rs) x = (case fst x of [] \<Rightarrow> [] | c # t \<Rightarrow> if inRanges rs c then [] else [(t, snd x)])"
| "ms Eps x = [x]"
| "ms (Seq a b) x = concat (map (ms b) (ms a x))"
| "ms (Alt a b) x = ms a x @ ms b x"
| "ms (Rep lo hi greedy r) x = reps (ms r) lo hi greedy x"
| "ms (Grp n r) x =
     map (\<lambda>y. (fst y, (n, take (length (fst x) - length (fst y)) (fst x)) # snd y)) (ms r x)"

text \<open>The result of \<open>RegExp.prototype.exec\<close>: the offset of the match, its text, its groups.\<close>

record rmatch =
  index :: nat
  matched :: jstring
  groups :: "(nat \<times> jstring) list"

definition capture :: "rmatch \<Rightarrow> nat \<Rightarrow> jstring js" where
  "capture m n = (case map_of (groups m) n of None \<Rightarrow> Undefined | Some s \<Rightarrow> Val s)"

text \<open>The leftmost start offset at which the pattern matches, with the first way it matches there.\<close>

fun searchFrom :: "regex \<Rightarrow> nat \<Rightarrow> jstring \<Rightarrow> rmatch option" where
  "searchFrom r i s =
     (case ms r (s, []) of
        y # _ \<Rightarrow> Some \<lparr>index = i, matched = take (length s - length (fst y)) s, groups = snd y\<rparr>
      | [] \<Rightarrow> (case s of [] \<Rightarrow> None | _ # t \<Rightarrow> searchFrom r (Suc i) t))"

text \<open>\<open>exec\<close> of a pattern without the \<open>g\<close> flag: the search always starts at offset 0,
  whatever \<open>lastIndex\<close> holds.\<close>

definition exec :: "regex \<Rightarrow> jstring \<Rightarrow> rmatch option" where
  "exec r text = searchFrom r 0 text"

text \<open>\<open>exec\<close> of a pattern with the \<open>g\<close> flag: the search starts at \<open>lastIndex\<close> and
  fails when that is beyond the end.\<close>

definition execAt :: "regex \<Rightarrow> jstring \<Rightarrow> nat \<Rightarrow> rmatch option" where
  "execAt r text lastIndex =
     (if length text < lastIndex then None else searchFrom r lastIndex (drop lastIndex text))"

subsection \<open>Writing patterns\<close>

definition seqs :: "regex list \<Rightarrow> regex" where
  "seqs rs = foldr Seq rs Eps"

fun alts :: "regex list \<Rightarrow> regex" where
  "alts [] = NCls [(0, 65535)]"
| "alts [r] = r"
| "alts (r # rs) = Alt r (alts rs)"

definition lit :: "string \<Rightarrow> regex" where
  "lit s = seqs (map (\<lambda>c. One [of_char c]) s)"

definition casePair :: "jschar \<Rightarrow> jschar list" where
  "casePair c = (if 97 \<le> c \<and> c \<le> 122 then [c, c - 32]
                 else if 65 \<le> c \<and> c \<le> 90 then [c, c + 32] else [c])"

text \<open>An ASCII literal under the \<open>i\<close> flag.\<close>

definition ci :: "string \<Rightarrow> regex" where
  "ci s = seqs (map (\<lambda>c. One (casePair (of_char c))) s)"

definition opt :: "regex \<Rightarrow> regex" where "opt r = Rep 0 (Some 1) True r"
definition star :: "regex \<Rightarrow> regex" where "star r = Rep 0 None True r"
definition plus :: "regex \<Rightarrow> regex" where "plus r = Rep 1 None True r"
definition lazyStar :: "regex \<Rightarrow> regex" where "lazyStar r = Rep 0 None False r"

text \<open>\<open>\s\<close>: the white space and line terminator code units.\<close>

definition wsRanges :: "(jschar \<times> jschar) list" where
  "wsRanges = [(9, 13), (32, 32), (160, 160), (5760, 5760), (8192, 8202), (8232, 8233),
               (8239, 8239), (8287, 8287), (12288, 12288), (65279, 65279)]"

definition ws :: regex where "ws = Cls wsRanges"
definition digit :: regex where "digit = Cls [(48, 57)]"
definition alpha :: regex where "alpha = Cls [(97, 122), (65, 90)]"

text \<open>\<open>[a-zA-Z0-9.-]+\.[a-zA-Z]{2,}\<close>, the host name shape shared by most patterns.\<close>

definition hostChar :: regex where
  "hostChar = Cls [(97, 122), (65, 90), (48, 57), (46, 46), (45, 45)]"

definition hostName :: regex where
  "hostName = seqs [plus hostChar, lit ''.'', Rep 2 None True alpha]"



text \<open>A lower bound on the number of code units any match of a pattern consumes.\<close>

definition repBound :: "nat \<Rightarrow> nat option \<Rightarrow> nat" where
  "repBound lo hi = (case hi of None \<Rightarrow> lo | Some h \<Rightarrow> min lo h)"

primrec minLen :: "regex \<Rightarrow> nat" where
  "minLen (One cs) = 1"
| "minLen (Cls rs) = 1"
| "minLen (NCls rs) = 1"
| "minLen Eps = 0"
| "minLen (Seq a b) = minLen a + minLen b"
| "minLen (Alt a b) = min (minLen a) (minLen b)"
| "minLen (Rep lo hi greedy r) = repBound lo hi * minLen r"
| "minLen (Grp n r) = minLen r"

subsection \<open>The two loops over the matches of a pattern\<close>

text \<open>
  \<^verbatim>\<open>while ((m = pattern.exec(text)) !== null) { body }\<close> for a pattern with the flag
  \<open>g\<close>: \<open>lastIndex\<close> is the state of the loop, set by \<open>exec\<close> to the end of each
  match. A run that never ends has the value \<open>None\<close>.
\<close>

partial_function (option) whileExecG :: "regex \<Rightarrow> jstring \<Rightarrow> (rmatch \<Rightarrow> 's \<Rightarrow> 's) \<Rightarrow> nat \<Rightarrow> 's \<Rightarrow> 's option" where
  "whileExecG pattern text body lastIndex s =
     (case execAt pattern text lastIndex of
        None \<Rightarrow> Some s
      | Some m \<Rightarrow> whileExecG pattern text body (index m + length (matched m)) (body m s))"

text \<open>
  The same loop for a pattern without \<open>g\<close> (and without \<open>y\<close>). Such a pattern reads
  no \<open>lastIndex\<close>: an assignment to \<open>pattern.lastIndex\<close> in the body changes nothing,
  and every turn searches the same text from offset 0.
\<close>

partial_function (option) whileExec :: "regex \<Rightarrow> jstring \<Rightarrow> (rmatch \<Rightarrow> 's \<Rightarrow> 's) \<Rightarrow> 's \<Rightarrow> 's option" where
  "whileExec pattern text body s =
     (case exec pattern text of
        None \<Rightarrow> Some s
      | Some m \<Rightarrow> whileExec pattern text body (body m s))"

text \<open>The loop \<open>for (const pattern of patterns) { m = pattern.exec(s); if (m) break; }\<close>.\<close>

fun firstMatch :: "regex list \<Rightarrow> jstring \<Rightarrow> rmatch option" where
  "firstMatch [] s = None"
| "firstMatch (p # ps) s = (case exec p s of Some m \<Rightarrow> Some m | None \<Rightarrow> firstMatch ps s)"

definition firstCapture :: "regex list \<Rightarrow> jstring \<Rightarrow> jstring js" where
  "firstCapture ps s = (case firstMatch ps s of None \<Rightarrow> Null | Some m \<Rightarrow> capture m 1)"

text \<open>\<open>forEach\<close> with a body that may not return: the first body that does not return ends the run.\<close>

fun forEachOpt :: "('a \<Rightarrow> 's \<Rightarrow> 's option) \<Rightarrow> 'a list \<Rightarrow> 's \<Rightarrow> 's option" where
  "forEachOpt body [] s = Some s"
| "forEachOpt body (x # xs) s = (case body x s of None \<Rightarrow> None | Some s' \<Rightarrow> forEachOpt body xs s')"

section \<open>The services of the JavaScript runtime\<close>

text \<open>
  What the code takes from the runtime rather than from this repository:
  \<open>String.prototype.toLowerCase\<close>; the host name of \<open>new URL(s)\<close>, where \<open>None\<close>
  stands for the \<open>TypeError\<close> the constructor throws on a string that is no URL; and
  the clock, \<open>new Date().toISOString()\<close>, of which one reading serves a whole call.
\<close>

record runtime =
  toLowerCase :: "jstring \<Rightarrow> jstring"
  urlHostname :: "jstring \<Rightarrow> jstring option"
  nowISO :: jstring

text \<open>
  \<open>toLowerCase\<close> on the Latin and Polish capitals; every other code unit is left as it
  is. It agrees with the runtime's function on texts written with ASCII and the Polish
  letters, which is where the examples below apply it.
\<close>

definition lowerChar :: "jschar \<Rightarrow> jschar" where
  "lowerChar c = (if 65 \<le> c \<and> c \<le> 90 then c + 32
                  else if c = 211 then 243
                  else if c \<in> set [260, 262, 280, 321, 323, 346, 377, 379] then c + 1
                  else c)"

definition lowerPL :: "jstring \<Rightarrow> jstring" where
  "lowerPL s = map lowerChar s"

text \<open>
  The errors the code raises: the \<open>TypeError\<close> of the runtime, and the \<open>Error\<close> the
  exports throw with their message (the spec's ExportError).
\<close>

datatype error = TypeError | ExportError jstring

text \<open>Truthiness of a string and of a number property, and the operator \<open>||\<close> on strings.\<close>

fun truthyS :: "jstring js \<Rightarrow> bool" where
  "truthyS (Val s) = (s \<noteq> [])"
| "truthyS _ = False"

fun truthyN :: "nat js \<Rightarrow> bool" where
  "truthyN (Val n) = (n \<noteq> 0)"
| "truthyN _ = False"

definition orS :: "jstring js \<Rightarrow> jstring js \<Rightarrow> jstring js" where
  "orS a b = (if truthyS a then a else b)"

text \<open>\<open>parseInt\<close> of a string of decimal digits (what \<open>(\d+)\<close> captures).\<close>

definition parseInt :: "jstring \<Rightarrow> nat" where
  "parseInt s = foldl (\<lambda>n c. 10 * n + (c - 48)) 0 s"

definition isWs :: "jschar \<Rightarrow> bool" where
  "isWs c = inRanges wsRanges c"

text \<open>\<open>String.prototype.trim\<close>.\<close>

definition trim :: "jstring \<Rightarrow> jstring" where
  "trim s = rev (dropWhile isWs (rev (dropWhile isWs s)))"

text \<open>
  Modelled from the spec: \<open>getNearbyText\<close> is called by the extractors and defined in
  no source file. The spec's \<open>nearbyText(text, offset, radius)\<close> "returns the bounded
  window [...] clipped at text bounds", which is also what the sibling extractors write
  in line: \<open>text.substring(Math.max(0, i - r), Math.min(text.length, i + r))\<close>.
\<close>

definition getNearbyText :: "jstring \<Rightarrow> nat \<Rightarrow> nat \<Rightarrow> jstring" where
  "getNearbyText text i radius = substring text (i - radius) (min (length text) (i + radius))"

section \<open>extractFtpCredentials\<close>

definition notColon :: regex where "notColon = NCls [(58, 58)]"
definition userChar :: regex where
  "userChar = Cls [(97, 122), (65, 90), (48, 57), (46, 46), (95, 95), (45, 45)]"
definition secretChar :: regex where "secretChar = NCls (wsRanges @ [(44, 44), (59, 59)])"

text \<open>\<open>u\<close>, z with dot, \<open>ytkownik\<close>, and \<open>has\<close>, l with stroke, \<open>o\<close>, under the \<open>i\<close> flag.\<close>

definition uzytkownik :: regex where
  "uzytkownik = seqs [ci ''u'', One [380, 379], ci ''ytkownik'']"
definition haslo_pl :: regex where
  "haslo_pl = seqs [ci ''has'', One [322, 321], ci ''o'']"

definition ftpOrSerwerFtp :: regex where
  "ftpOrSerwerFtp = Alt (ci ''FTP'') (seqs [ci ''serwer'', plus ws, ci ''FTP''])"

text \<open>\<open>patterns.ftpServer\<close>, lines 50 to 54; all three carry the flag \<open>i\<close> only.\<close>

definition ftpServerPatterns :: "regex list" where
  "ftpServerPatterns =
    [seqs [Alt (seqs [ci ''serwer'', opt (ci ''a''), star ws, ci ''FTP''])
               (seqs [ci ''adres'', star ws, ci ''FTP'']),
           lit '':'', star ws, Grp 1 hostName],
     seqs [ci ''FTP'', lit '':'', star ws, Grp 1 hostName],
     seqs [ftpOrSerwerFtp, lazyStar notColon, opt (Alt (ci ''jest'') (ci ''to'')),
           Alt (seqs [lit '':'', star ws]) (plus ws), Grp 1 hostName]]"

definition ftpUsernamePatterns :: "regex list" where
  "ftpUsernamePatterns =
    [seqs [alts [ci ''login'', ci ''username'', ci ''user'', seqs [uzytkownik, opt (ci ''a'')],
                 seqs [ci ''nazwa'', star ws, uzytkownik, ci ''a'']],
           opt (seqs [plus ws, ci ''FTP'']), lit '':'', star ws, Grp 1 (plus userChar)],
     seqs [ftpOrSerwerFtp, lazyStar notColon, alts [ci ''login'', ci ''username'', ci ''user''],
           lit '':'', star ws, Grp 1 (plus userChar)]]"

definition ftpPasswordPatterns :: "regex list" where
  "ftpPasswordPatterns =
    [seqs [alts [haslo_pl, ci ''haslo'', ci ''password'', ci ''pass'', ci ''pwd''],
           opt (seqs [plus ws, ci ''FTP'']), lit '':'', star ws, Grp 1 (plus secretChar)],
     seqs [ftpOrSerwerFtp, lazyStar notColon, alts [haslo_pl, ci ''haslo'', ci ''password'', ci ''pass''],
           lit '':'', star ws, Grp 1 (plus secretChar)]]"

definition ftpPortPatterns :: "regex list" where
  "ftpPortPatterns =
    [seqs [Alt (seqs [ci ''port'', plus ws, ci ''FTP'']) (seqs [ci ''FTP'', plus ws, ci ''port'']),
           lit '':'', star ws, Grp 1 (plus digit)]]"

definition octet :: regex where "octet = Rep 1 (Some 3) True digit"

text \<open>\<open>ipRegex\<close>, line 87, with the flags \<open>gi\<close>.\<close>

definition ipRegex :: regex where
  "ipRegex = seqs [Alt (seqs [ci ''adres'', star ws, ci ''IP'']) (ci ''IP''), lit '':'', star ws,
                   Grp 1 (seqs [octet, lit ''.'', octet, lit ''.'', octet, lit ''.'', octet])]"

record serverRef =
  ref_server :: "jstring js"
  ref_index :: nat

record ftpAccount =
  fa_server :: "jstring js"
  fa_username :: "jstring js"
  fa_password :: "jstring js"
  fa_port :: nat
  fa_type :: jstring
  fa_confidence :: real

text \<open>The body of the loop of lines 74 to 83, run once for each match of a server pattern.\<close>

definition pushFtpServer :: "rmatch \<Rightarrow> serverRef list \<Rightarrow> serverRef list" where
  "pushFtpServer m ftpServers = ftpServers @ [\<lparr>ref_server = capture m 1, ref_index = index m\<rparr>]"

text \<open>The body of the loop of lines 90 to 101, for each address \<open>ipRegex\<close> finds.\<close>

definition pushFtpIp :: "runtime \<Rightarrow> jstring \<Rightarrow> rmatch \<Rightarrow> serverRef list \<Rightarrow> serverRef list" where
  "pushFtpIp E text ipMatch ftpServers =
     (let nearbyText = toLowerCase E (getNearbyText text (index ipMatch) 50)
      in if includesStr nearbyText (str ''ftp'') \<or>
            (includesStr nearbyText (str ''serwer'') \<and> \<not> includesStr nearbyText (str ''mail''))
         then ftpServers @ [\<lparr>ref_server = capture ipMatch 1, ref_index = index ipMatch\<rparr>]
         else ftpServers)"

text \<open>The body of \<open>ftpServers.forEach\<close>, lines 104 to 148: nothing is pushed without a user name.\<close>

definition ftpAccountFor :: "jstring \<Rightarrow> serverRef \<Rightarrow> ftpAccount list" where
  "ftpAccountFor text server =
     (let nearbyText = getNearbyText text (ref_index server) 300;
          username = firstCapture ftpUsernamePatterns nearbyText;
          password = firstCapture ftpPasswordPatterns nearbyText;
          port = (case firstMatch ftpPortPatterns nearbyText of
                    None \<Rightarrow> Null
                  | Some portMatch \<Rightarrow> (case capture portMatch 1 of Val d \<Rightarrow> Val (parseInt d) | _ \<Rightarrow> Null))
      in if truthyS username
         then [\<lparr>fa_server = ref_server server, fa_username = username, fa_password = password,
                fa_port = (if truthyN port then (case port of Val n \<Rightarrow> n | _ \<Rightarrow> 21) else 21),
                fa_type = str ''ftp'',
                fa_confidence = (if truthyS password then 0.9 else 0.7)\<rparr>]
         else [])"

text \<open>
  \<open>extractFtpCredentials\<close>, lines 45 to 151. The loop over \<open>patterns.ftpServer\<close> is
  \<open>whileExec\<close>: its patterns have no \<open>g\<close> flag, and the assignment to
  \<open>pattern.lastIndex\<close> at line 82 leaves the next \<open>exec\<close> as it was.
\<close>

definition extractFtpCredentials :: "runtime \<Rightarrow> jstring \<Rightarrow> ftpAccount list option" where
  "extractFtpCredentials E text =
     (case forEachOpt (\<lambda>pattern ftpServers. whileExec pattern text pushFtpServer ftpServers)
             ftpServerPatterns [] of
        None \<Rightarrow> None
      | Some ftpServers \<Rightarrow>
          (case whileExecG ipRegex text (pushFtpIp E text) 0 ftpServers of
             None \<Rightarrow> None
           | Some ftpServers' \<Rightarrow> Some (concat (map (ftpAccountFor text) ftpServers'))))"

section \<open>extractAllCredentials\<close>

text \<open>
  \<open>extractAllCredentials\<close>, lines 14 to 38. A blank text gives the record of empty lists.
  Otherwise the properties of the result are evaluated in the order they are written, and
  \<open>ftpAccounts: extractFtpCredentials(text)\<close> is the first. The seven extractors called
  after it (two of them, \<open>extractDatabaseCredentials\<close> and
  \<open>extractGenericCredentials\<close>, are defined in no source file) are the parameter
  \<open>others\<close>, and \<open>noOthers\<close> is their part of the record of empty lists.
\<close>

definition extractAllCredentials ::
  "runtime \<Rightarrow> (jstring \<Rightarrow> 'r option) \<Rightarrow> 'r \<Rightarrow> jstring \<Rightarrow> (ftpAccount list \<times> 'r) option" where
  "extractAllCredentials E others noOthers text =
     (if text = [] \<or> length (trim text) = 0 then Some ([], noOthers)
      else (case extractFtpCredentials E text of
              None \<Rightarrow> None
            | Some ftpAccounts \<Rightarrow>
                (case others text of None \<Rightarrow> None | Some rest \<Rightarrow> Some (ftpAccounts, rest))))"

section \<open>extractDnsRecords\<close>

definition dnsSectionPatterns :: "regex list" where
  "dnsSectionPatterns =
    [seqs [alts [ci ''rekordy'', ci ''wpisy'', ci ''konfiguracja''], plus ws, ci ''DNS''],
     seqs [Alt (ci ''ustawienia'') (ci ''konfiguracja''), plus ws,
           Alt (ci ''DNS'') (seqs [ci ''domen'', opt (ci ''y'')])]]"

text \<open>
  \<open>extractDnsRecords\<close>, lines 713 to 750: the function looks for the start of a DNS
  section and ends there. It has no \<open>return\<close>, so what the caller receives is
  \<open>undefined\<close>, not the array \<open>dnsRecords\<close>.
\<close>

definition extractDnsRecords :: "jstring \<Rightarrow> unit list js" where
  "extractDnsRecords text =
     (let dnsRecords = [] :: unit list;
          dnsSectionStart = (case firstMatch dnsSectionPatterns text of
                               None \<Rightarrow> None | Some sectionMatch \<Rightarrow> Some (index sectionMatch))
      in Undefined)"

section \<open>extractDomainInfo\<close>

text \<open>\<open>e\<close> with ogonek and \<open>o\<close> acute under the \<open>i\<close> flag.\<close>

definition e_ogonek :: regex where "e_ogonek = One [281, 280]"
definition o_acute :: regex where "o_acute = One [243, 211]"

text \<open>\<open>(?:\s+|\s*:\s*)?\<close>, between the word for the domain and its name.\<close>

definition domainGap :: regex where
  "domainGap = opt (Alt (plus ws) (seqs [star ws, lit '':'', star ws]))"

text \<open>\<open>patterns.domain\<close>, lines 608 to 611, both with the flags \<open>gi\<close>. The first knows
  the words \<open>domeny\<close>, \<open>domen\<close> followed by e with ogonek, and \<open>domain\<close>.\<close>

definition domainPatterns :: "regex list" where
  "domainPatterns =
    [seqs [Alt (seqs [ci ''domen'', Alt (ci ''y'') e_ogonek]) (ci ''domain''), domainGap, Grp 1 hostName],
     seqs [Alt (ci ''przekierowanie'') (ci ''przeniesienie''), plus ws,
           Alt (ci ''domeny'') (seqs [ci ''domen'', opt (ci ''y'')]), domainGap, Grp 1 hostName]]"

text \<open>\<open>patterns.nameserverSection\<close>, lines 612 to 615, with the flag \<open>i\<close>.\<close>

definition nameserverSectionPatterns :: "regex list" where
  "nameserverSectionPatterns =
    [seqs [Alt (seqs [ci ''serwer'', opt (Alt (ci ''y'') (seqs [o_acute, ci ''w''])), star ws,
                      Alt (ci ''DNS'') (ci ''nazw'')])
               (seqs [ci ''nameserver'', opt (ci ''s'')]),
           lazyStar notColon, lit '':''],
     seqs [Alt (seqs [ci ''adres'', opt (ci ''y''), plus ws, ci ''serwer'', o_acute, ci ''w'', plus ws, ci ''DNS''])
               (seqs [ci ''DNS'', opt (seqs [plus ws, ci ''servers''])]),
           plus ws, Alt (ci ''potrzebne'') (ci ''to''), lazyStar notColon, lit '':'']]"

definition nsLabel :: regex where
  "nsLabel = Alt (seqs [lit ''ns'', plus digit]) (seqs [lit ''NS'', plus digit])"

text \<open>\<open>patterns.nameserver\<close>, lines 616 to 619, with the flag \<open>g\<close> and no \<open>i\<close>.\<close>

definition nameserverPatterns :: "regex list" where
  "nameserverPatterns =
    [seqs [nsLabel, lit ''.'', Grp 1 hostName],
     seqs [nsLabel, Alt (seqs [star ws, One [61, 58], star ws]) (plus ws), Grp 1 hostName]]"

text \<open>\<open>websiteRegex\<close>, line 684, with the flags \<open>gi\<close>.\<close>

definition websiteRegex :: regex where
  "websiteRegex = Grp 1 (seqs [ci ''http'', opt (ci ''s''), lit ''://'', Grp 2 hostName])"

text \<open>\<open>s.split(c)\<close> for a separator of one code unit.\<close>

function splitOn :: "jschar \<Rightarrow> jstring \<Rightarrow> jstring list" where
  "splitOn c s =
     (case dropWhile (\<lambda>x. x \<noteq> c) s of
        [] \<Rightarrow> [takeWhile (\<lambda>x. x \<noteq> c) s]
      | _ # rest \<Rightarrow> takeWhile (\<lambda>x. x \<noteq> c) s # splitOn c rest)"
  by pat_completeness auto
termination
proof (relation "measure (\<lambda>(c, s). length s)")
  show "wf (measure (\<lambda>(c, s). length s))" by simp
next
  fix c :: jschar and s x21 x22
  assume "dropWhile (\<lambda>x. x \<noteq> c) s = x21 # x22"
  then have "length (x21 # x22) \<le> length s"
    by (metis length_dropWhile_le)
  then show "((c, x22), (c, s)) \<in> measure (\<lambda>(c, s). length s)" by simp
qed

text \<open>\<open>/^X$/.test(s)\<close>: some way of matching \<open>X\<close> from offset 0 reads all of \<open>s\<close>.\<close>

definition testWhole :: "regex \<Rightarrow> jstring \<Rightarrow> bool" where
  "testWhole r s = list_ex (\<lambda>y. fst y = []) (ms r (s, []))"

text \<open>The body of the loop of lines 636 to 641.\<close>

definition pushNameserver :: "rmatch \<Rightarrow> jstring list \<Rightarrow> jstring list" where
  "pushNameserver nsEntryMatch nameservers' =
     (let fullNs = (if includesStr (matched nsEntryMatch) (str ''.'') then matched nsEntryMatch
                    else str ''ns.'' @ (case capture nsEntryMatch 1 of Val h \<Rightarrow> h | _ \<Rightarrow> str ''undefined''))
      in if fullNs \<in> set nameservers' then nameservers' else nameservers' @ [fullNs])"

text \<open>The body of the loop of lines 646 to 655, for one line after the first.\<close>

definition pushNsLine :: "jstring \<Rightarrow> jstring list \<Rightarrow> jstring list" where
  "pushNsLine rawLine nameservers' =
     (let line = trim rawLine
      in if testWhole hostName line \<and> line \<notin> set nameservers' then nameservers' @ [line]
         else nameservers')"

text \<open>Lines 623 to 659: the name servers of the first section found, or none.\<close>

definition findNameservers :: "jstring \<Rightarrow> jstring list option" where
  "findNameservers text =
     (case firstMatch nameserverSectionPatterns text of
        None \<Rightarrow> Some []
      | Some nsMatch \<Rightarrow>
          (let nsBlockStart = index nsMatch;
               nsBlock = substring text nsBlockStart (min (length text) (nsBlockStart + 400))
           in case forEachOpt (\<lambda>nsPattern ns. whileExecG nsPattern nsBlock pushNameserver 0 ns)
                     nameserverPatterns [] of
                None \<Rightarrow> None
              | Some ns \<Rightarrow> Some (fold pushNsLine (tl (splitOn 10 nsBlock)) ns)))"

record domainInfo =
  di_domain :: "jstring js"
  di_nameservers :: "jstring list"
  di_type :: jstring
  di_index :: nat
  di_confidence :: real

text \<open>The body of the loop of lines 664 to 679; \<open>g\<close> is the capture that holds the name.\<close>

definition pushDomain :: "jstring list \<Rightarrow> nat \<Rightarrow> real \<Rightarrow> rmatch \<Rightarrow> domainInfo list \<Rightarrow> domainInfo list" where
  "pushDomain nameservers' g conf domainMatch domains' =
     (let domain' = capture domainMatch g
      in if list_ex (\<lambda>d. di_domain d = domain') domains' then domains'
         else domains' @ [\<lparr>di_domain = domain', di_nameservers = nameservers',
                            di_type = str ''domain'', di_index = index domainMatch,
                            di_confidence = conf\<rparr>])"

text \<open>Lines 662 to 680: the domains the text names.\<close>

definition explicitDomains :: "jstring \<Rightarrow> jstring list \<Rightarrow> domainInfo list option" where
  "explicitDomains text nameservers' =
     forEachOpt (\<lambda>pattern ds. whileExecG pattern text (pushDomain nameservers' 1 0.9) 0 ds)
       domainPatterns []"

text \<open>\<open>extractDomainInfo\<close>, lines 603 to 706.\<close>

definition extractDomainInfo :: "jstring \<Rightarrow> domainInfo list option" where
  "extractDomainInfo text =
     (case findNameservers text of
        None \<Rightarrow> None
      | Some nameservers' \<Rightarrow>
          (case explicitDomains text nameservers' of
             None \<Rightarrow> None
           | Some domains' \<Rightarrow>
               if 0 < length nameservers' \<and> length domains' = 0
               then whileExecG websiteRegex text (pushDomain nameservers' 2 0.8) 0 domains'
               else Some domains'))"

section \<open>extractEmailAccounts\<close>

definition a_ogonek :: regex where "a_ogonek = One [261, 260]"

text \<open>\<open>patterns.emailAddress[0]\<close>, line 326, with the flag \<open>g\<close>.\<close>

definition emailAddressPattern :: regex where
  "emailAddressPattern =
     Grp 1 (seqs [plus (Cls [(97, 122), (65, 90), (48, 57), (46, 46), (95, 95), (37, 37), (43, 43), (45, 45)]),
                  lit ''@'', hostName])"

text \<open>
  Every property of the object \<open>patterns\<close> of lines 324 to 347 is an array of patterns,
  also where it holds a single one. \<open>patterns.emailConfig\<close>, line 329:
\<close>

definition emailConfigPatterns :: "regex list" where
  "emailConfigPatterns =
    [seqs [Alt (ci ''dane'') (ci ''konfiguracja''), plus ws, opt (seqs [ci ''do'', plus ws]),
           Alt (ci ''poczty'')
               (seqs [ci ''klient'', Alt (ci ''a'') (seqs [o_acute, ci ''w'']), plus ws, ci ''pocztow''])]]"

text \<open>\<open>patterns.mailServer\<close>, lines 331 to 334.\<close>

definition mailServerPatterns :: "regex list" where
  "mailServerPatterns =
    [seqs [Alt (seqs [ci ''serwer'', opt (ci ''a''), plus ws,
                      Alt (ci ''poczty'') (seqs [ci ''pocztow'', One [121, 89, 97, 65]])])
               (seqs [ci ''mail'', plus ws, ci ''server'']),
           opt (seqs [plus ws,
                      opt (Alt (seqs [ci ''wychodz'', a_ogonek, ci ''c'', Alt (ci ''ej'') (ci ''a'')])
                               (seqs [ci ''przychodzac'', Alt (ci ''ej'') (ci ''a'')]))]),
           opt (seqs [star ws, alts [ci ''to'', ci ''jest'', lit '':'']]),
           star ws, Grp 1 hostName],
     seqs [alts [ci ''IMAP'', ci ''POP3'', ci ''SMTP''], lazyStar notColon,
           opt (Alt (ci ''jest'') (ci ''to'')), Alt (seqs [lit '':'', star ws]) (plus ws), Grp 1 hostName]]"

text \<open>\<open>patterns.password\<close>, line 336.\<close>

definition emailPasswordPatterns :: "regex list" where
  "emailPasswordPatterns =
    [seqs [alts [haslo_pl, ci ''haslo'', ci ''password'', ci ''pass'', ci ''pwd''],
           opt (seqs [plus ws, alts [ci ''poczty'', ci ''email'', ci ''mail'']]),
           lit '':'', star ws, Grp 1 (plus secretChar)]]"

text \<open>\<open>patterns.imapPort\<close>, \<open>smtpPort\<close> and \<open>popPort\<close>, lines 338 to 346.\<close>

definition portPatternFor :: "regex \<Rightarrow> regex" where
  "portPatternFor proto =
     seqs [Alt (seqs [ci ''port'', plus ws, proto]) (seqs [proto, lazyStar notColon, ci ''port'']),
           lit '':'', star ws, Grp 1 (plus digit)]"

definition imapPortPatterns :: "regex list" where "imapPortPatterns = [portPatternFor (ci ''IMAP'')]"
definition smtpPortPatterns :: "regex list" where "smtpPortPatterns = [portPatternFor (ci ''SMTP'')]"
definition popPortPatterns :: "regex list" where
  "popPortPatterns = [portPatternFor (seqs [ci ''POP'', opt (lit ''3'')])]"

text \<open>
  \<open>patterns.emailConfig.exec(text)\<close>, and the like at lines 353, 368 to 370 and 406:
  \<open>exec\<close> is asked of the array, not of a pattern in it. An array has no property
  \<open>exec\<close>, and calling \<open>undefined\<close> is a \<open>TypeError\<close>, whatever the array and the
  string are.
\<close>

definition arrayExec :: "regex list \<Rightarrow> jstring \<Rightarrow> error + rmatch option" where
  "arrayExec patterns s = Inl TypeError"

record mailServerConfig =
  mc_server :: "jstring js"
  mc_imapPort :: nat
  mc_smtpPort :: nat
  mc_popPort :: nat
  mc_encryption :: jstring

definition portOf :: "rmatch option \<Rightarrow> nat \<Rightarrow> nat" where
  "portOf portMatch d =
     (case portMatch of
        None \<Rightarrow> d
      | Some m \<Rightarrow> (case capture m 1 of Val digits \<Rightarrow> parseInt digits | _ \<Rightarrow> d))"

text \<open>Lines 354 to 380: the mail server of the configuration section, when there is one.\<close>

definition findMailServerConfig :: "jstring \<Rightarrow> rmatch option \<Rightarrow> error + mailServerConfig option" where
  "findMailServerConfig text configMatch' =
     (case configMatch' of
        None \<Rightarrow> Inr None
      | Some configMatch \<Rightarrow>
          (let configSectionText =
                 substring text (index configMatch) (min (length text) (index configMatch + 800))
           in case firstMatch mailServerPatterns configSectionText of
                None \<Rightarrow> Inr None
              | Some serverMatch \<Rightarrow>
                  (case arrayExec imapPortPatterns configSectionText of
                     Inl e \<Rightarrow> Inl e
                   | Inr imapPortMatch \<Rightarrow>
                  (case arrayExec smtpPortPatterns configSectionText of
                     Inl e \<Rightarrow> Inl e
                   | Inr smtpPortMatch \<Rightarrow>
                  (case arrayExec popPortPatterns configSectionText of
                     Inl e \<Rightarrow> Inl e
                   | Inr popPortMatch \<Rightarrow>
                       Inr (Some \<lparr>mc_server = capture serverMatch 1,
                                  mc_imapPort = portOf imapPortMatch 993,
                                  mc_smtpPort = portOf smtpPortMatch 465,
                                  mc_popPort = portOf popPortMatch 995,
                                  mc_encryption = str ''SSL/TLS''\<rparr>))))))"

record emailAccount =
  ea_email :: "jstring js"
  ea_password :: "jstring js"
  ea_server :: "jstring js"
  ea_imapPort :: "nat js"
  ea_smtpPort :: "nat js"
  ea_popPort :: "nat js"
  ea_encryption :: "jstring js"
  ea_type :: jstring
  ea_confidence :: real

text \<open>
  The test of lines 391 to 394 on the 20 code units before the offset \<open>i\<close> of an address:
  their lower case holds \<open>login\<close>, \<open>user\<close> or \<open>nazwa u\u017Cytkownika\<close>.
\<close>

definition loginBefore :: "runtime \<Rightarrow> jstring \<Rightarrow> nat \<Rightarrow> bool" where
  "loginBefore E text i =
     (let preText = toLowerCase E (substring text (i - 20) i)
      in includesStr preText (str ''login'') \<or> includesStr preText (str ''user'')
         \<or> includesStr preText (str ''nazwa u'' @ [380] @ str ''ytkownika''))"

text \<open>The body of the loop of lines 386 to 425; \<open>continue\<close> leaves the list as it is.\<close>

definition pushEmail :: "runtime \<Rightarrow> jstring \<Rightarrow> mailServerConfig option \<Rightarrow> rmatch \<Rightarrow> emailAccount list \<Rightarrow> error + emailAccount list" where
  "pushEmail E text mailServerConfig' emailMatch emailAccounts' =
     (let email' = capture emailMatch 1;
          nearbyText = getNearbyText text (index emailMatch) 300
      in if loginBefore E text (index emailMatch) then Inr emailAccounts'
         else
           let lowered = toLowerCase E nearbyText;
               isMigrationEmail = (includesStr lowered (str ''migracj'')
                                   \<or> includesStr lowered (str ''przeniesieni'')
                                   \<or> includesStr lowered (str ''skrzynki'')
                                   \<or> includesStr lowered (str ''pocztow''))
           in case arrayExec emailPasswordPatterns nearbyText of
                Inl e \<Rightarrow> Inl e
              | Inr passwordMatch \<Rightarrow>
                  (let password' = (case passwordMatch of None \<Rightarrow> Null | Some pm \<Rightarrow> capture pm 1)
                   in if isMigrationEmail \<or> mailServerConfig' \<noteq> None
                      then Inr (emailAccounts' @
                           [\<lparr>ea_email = email', ea_password = password',
                             ea_server = (case mailServerConfig' of Some c \<Rightarrow> mc_server c | None \<Rightarrow> Null),
                             ea_imapPort = (case mailServerConfig' of Some c \<Rightarrow> Val (mc_imapPort c) | None \<Rightarrow> Null),
                             ea_smtpPort = (case mailServerConfig' of Some c \<Rightarrow> Val (mc_smtpPort c) | None \<Rightarrow> Null),
                             ea_popPort = (case mailServerConfig' of Some c \<Rightarrow> Val (mc_popPort c) | None \<Rightarrow> Null),
                             ea_encryption = (case mailServerConfig' of Some c \<Rightarrow> Val (mc_encryption c) | None \<Rightarrow> Null),
                             ea_type = str ''email'',
                             ea_confidence = (if truthyS password' then 0.9 else 0.7)\<rparr>])
                      else Inr emailAccounts'))"

text \<open>The loop of lines 386 to 425 over the matches of \<open>patterns.emailAddress[0]\<close>; an
  error in the body ends it.\<close>

partial_function (option) emailLoop ::
  "runtime \<Rightarrow> jstring \<Rightarrow> mailServerConfig option \<Rightarrow> nat \<Rightarrow> emailAccount list \<Rightarrow> (error + emailAccount list) option" where
  "emailLoop E text mailServerConfig' lastIndex emailAccounts' =
     (case execAt emailAddressPattern text lastIndex of
        None \<Rightarrow> Some (Inr emailAccounts')
      | Some emailMatch \<Rightarrow>
          (case pushEmail E text mailServerConfig' emailMatch emailAccounts' of
             Inl e \<Rightarrow> Some (Inl e)
           | Inr emailAccounts'' \<Rightarrow>
               emailLoop E text mailServerConfig' (index emailMatch + length (matched emailMatch))
                 emailAccounts''))"

text \<open>
  \<open>extractEmailAccounts\<close>, lines 320 to 428. The result is \<open>None\<close> for a run that never
  ends, \<open>Some (Inl e)\<close> for one that raises \<open>e\<close>, \<open>Some (Inr accounts)\<close> for one that
  returns. The first statement after the table of patterns is the call of line 353.
\<close>

definition extractEmailAccounts :: "runtime \<Rightarrow> jstring \<Rightarrow> (error + emailAccount list) option" where
  "extractEmailAccounts E text =
     (case arrayExec emailConfigPatterns text of
        Inl e \<Rightarrow> Some (Inl e)
      | Inr configMatch \<Rightarrow>
          (case findMailServerConfig text configMatch of
             Inl e \<Rightarrow> Some (Inl e)
           | Inr mailServerConfig' \<Rightarrow> emailLoop E text mailServerConfig' 0 []))"

section \<open>Credentials and their canonical records\<close>

record mailSettings =
  set_server :: "jstring js"
  set_port :: "nat js"

text \<open>
  A credential as the formatter reads it: one field for each property the code looks at.
  \<open>cred_type\<close> is the property \<open>_type\<close>.
\<close>

record credential =
  cred_type :: "jstring js"
  system :: "jstring js"
  server :: "jstring js"
  username :: "jstring js"
  password :: "jstring js"
  port :: "nat js"
  encryption :: "jstring js"
  dateExtracted :: "jstring js"
  confidence :: "real js"
  url :: "jstring js"
  loginUrl :: "jstring js"
  domain :: "jstring js"
  registrar :: "jstring js"
  nameservers :: "jstring list js"
  currentNameservers :: "jstring list js"
  email :: "jstring js"
  imapSettings :: "mailSettings js"
  smtpSettings :: "mailSettings js"
  popSettings :: "mailSettings js"
  imapPort :: "nat js"
  smtpPort :: "nat js"
  popPort :: "nat js"
  clientId :: "jstring js"
  clientName :: "jstring js"
  ticketId :: "jstring js"

text \<open>\<open>a || null\<close>, \<open>a || "text"\<close>, \<open>n || 21\<close> and \<open>x || 1.0\<close>.\<close>

definition orNull :: "jstring js \<Rightarrow> jstring js" where
  "orNull a = orS a Null"

definition strOr :: "jstring js \<Rightarrow> jstring \<Rightarrow> jstring" where
  "strOr a d = (case a of Val s \<Rightarrow> if s \<noteq> [] then s else d | _ \<Rightarrow> d)"

definition orN :: "nat js \<Rightarrow> nat js \<Rightarrow> nat js" where
  "orN a b = (if truthyN a then a else b)"

definition numOr :: "nat js \<Rightarrow> nat \<Rightarrow> nat" where
  "numOr a d = (case a of Val n \<Rightarrow> if n \<noteq> 0 then n else d | _ \<Rightarrow> d)"

definition confOr :: "real js \<Rightarrow> real \<Rightarrow> real" where
  "confOr a d = (case a of Val x \<Rightarrow> if x \<noteq> 0 then x else d | _ \<Rightarrow> d)"

text \<open>\<open>s.replace(pat, rep)\<close> with a string pattern: the first occurrence only.\<close>

fun replaceFirst :: "jstring \<Rightarrow> jstring \<Rightarrow> jstring \<Rightarrow> jstring" where
  "replaceFirst pat rep [] = (if pat = [] then rep else [])"
| "replaceFirst pat rep (c # cs) =
     (if isPrefix pat (c # cs) then rep @ drop (length pat) (c # cs)
      else c # replaceFirst pat rep cs)"

record ftpRecord =
  f_server :: "jstring js"
  f_username :: "jstring js"
  f_password :: "jstring js"
  f_port :: nat
  f_encryption :: jstring
  f_dateExtracted :: jstring
  f_confidence :: real

record websiteRecord =
  w_url :: "jstring js"
  w_hostname :: "jstring js"
  w_username :: "jstring js"
  w_password :: "jstring js"
  w_loginUrl :: "jstring js"
  w_cms :: "jstring js"
  w_dateExtracted :: jstring
  w_confidence :: real

record domainRecord =
  d_domain :: "jstring js"
  d_registrar :: "jstring js"
  d_nameservers :: "jstring list"
  d_required :: bool
  d_currentNameservers :: "jstring list js"
  d_dateExtracted :: jstring
  d_confidence :: real

text \<open>
  Of the mail record the fields that vary: the three \<open>hostname\<close>s are \<open>e_server\<close>,
  every \<open>encryption\<close> is \<open>"SSL/TLS"\<close> and every \<open>authentication\<close>
  \<open>"Normal Password"\<close>; \<open>e_pop3\<close> is \<open>None\<close> for \<open>pop3: null\<close>.
\<close>

record emailRecord =
  e_email :: "jstring js"
  e_password :: "jstring js"
  e_server :: "jstring js"
  e_imapPort :: nat
  e_pop3 :: "nat option"
  e_smtpPort :: nat
  e_dateExtracted :: jstring
  e_confidence :: real

record genericRecord =
  g_username :: "jstring js"
  g_password :: "jstring js"
  g_system :: jstring
  g_dateExtracted :: jstring
  g_confidence :: real

text \<open>\<open>formatFTPAccount\<close>, lines 62 to 73.\<close>

definition formatFTPAccount :: "runtime \<Rightarrow> credential \<Rightarrow> ftpRecord" where
  "formatFTPAccount E credential =
     \<lparr>f_server = orS (orS (server credential)
                        (case system credential of
                           Val s \<Rightarrow> Val (replaceFirst (str '')'') [] (replaceFirst (str ''FTP ('') [] s))
                         | _ \<Rightarrow> Undefined))
                   Null,
      f_username = orNull (username credential),
      f_password = orNull (password credential),
      f_port = numOr (port credential) 21,
      f_encryption = strOr (encryption credential) (str ''FTP''),
      f_dateExtracted = strOr (dateExtracted credential) (nowISO E),
      f_confidence = confOr (confidence credential) 1.0\<rparr>"

text \<open>\<open>detectCMS\<close>, lines 187 to 207.\<close>

definition detectCMS :: "runtime \<Rightarrow> jstring \<Rightarrow> jstring js" where
  "detectCMS E urlOrSystem =
     (let lowerCase = toLowerCase E urlOrSystem
      in if includesStr lowerCase (str ''wordpress'') \<or> includesStr lowerCase (str ''/wp-'')
            \<or> includesStr lowerCase (str ''/wp-admin'') then Val (str ''WordPress'')
         else if includesStr lowerCase (str ''joomla'') then Val (str ''Joomla'')
         else if includesStr lowerCase (str ''drupal'') then Val (str ''Drupal'')
         else if includesStr lowerCase (str ''magento'') then Val (str ''Magento'')
         else if includesStr lowerCase (str ''prestashop'') then Val (str ''PrestaShop'')
         else if includesStr lowerCase (str ''woocommerce'') then Val (str ''WooCommerce'')
         else if includesStr lowerCase (str ''shopify'') then Val (str ''Shopify'')
         else Null)"

text \<open>
  \<open>formatWebsite\<close>, lines 80 to 94. \<open>new URL(credential.url)\<close> is not guarded: a
  non-empty \<open>url\<close> that is no URL ends the call with a \<open>TypeError\<close>.
\<close>

definition formatWebsite :: "runtime \<Rightarrow> credential \<Rightarrow> error + websiteRecord" where
  "formatWebsite E credential =
     (case (if truthyS (url credential)
            then (case urlHostname E (strOr (url credential) []) of
                    None \<Rightarrow> Inl TypeError | Some h \<Rightarrow> Inr (Val h))
            else Inr Null) of
        Inl e \<Rightarrow> Inl e
      | Inr hostname \<Rightarrow>
          Inr \<lparr>w_url = orNull (url credential),
               w_hostname = hostname,
               w_username = orNull (username credential),
               w_password = orNull (password credential),
               w_loginUrl = orNull (loginUrl credential),
               w_cms = detectCMS E (strOr (orS (url credential) (system credential)) []),
               w_dateExtracted = strOr (dateExtracted credential) (nowISO E),
               w_confidence = confOr (confidence credential) 1.0\<rparr>)"

text \<open>\<open>formatDomain\<close>, lines 101 to 114. An array is truthy even when it is empty.\<close>

definition formatDomain :: "runtime \<Rightarrow> credential \<Rightarrow> domainRecord" where
  "formatDomain E credential =
     \<lparr>d_domain = orS (orS (domain credential) (username credential)) Null,
      d_registrar = orNull (registrar credential),
      d_nameservers = (case nameservers credential of Val ns \<Rightarrow> ns | _ \<Rightarrow> []),
      d_required = (case nameservers credential of Val ns \<Rightarrow> 0 < length ns | _ \<Rightarrow> False),
      d_currentNameservers = (case currentNameservers credential of Val ns \<Rightarrow> Val ns | _ \<Rightarrow> Null),
      d_dateExtracted = strOr (dateExtracted credential) (nowISO E),
      d_confidence = confOr (confidence credential) 1.0\<rparr>"

text \<open>\<open>formatEmailAccount\<close>, lines 121 to 164.\<close>

definition formatEmailAccount :: "runtime \<Rightarrow> credential \<Rightarrow> emailRecord" where
  "formatEmailAccount E credential =
     (let server' = orS (orS (orS (server credential)
                                  (case imapSettings credential of Val st \<Rightarrow> set_server st | _ \<Rightarrow> Null))
                             (case smtpSettings credential of Val st \<Rightarrow> set_server st | _ \<Rightarrow> Null))
                        Null;
          smtpPort' = (case smtpSettings credential of
                         Val st \<Rightarrow> set_port st | _ \<Rightarrow> orN (smtpPort credential) Null);
          imapPort' = (case imapSettings credential of
                         Val st \<Rightarrow> set_port st | _ \<Rightarrow> orN (imapPort credential) Null);
          popPort' = (case popSettings credential of
                        Val st \<Rightarrow> set_port st | _ \<Rightarrow> orN (popPort credential) Null)
      in \<lparr>e_email = orS (orS (email credential) (username credential)) Null,
          e_password = orNull (password credential),
          e_server = server',
          e_imapPort = numOr imapPort' 993,
          e_pop3 = (if truthyN popPort' then Some (numOr popPort' 995) else None),
          e_smtpPort = numOr smtpPort' 465,
          e_dateExtracted = strOr (dateExtracted credential) (nowISO E),
          e_confidence = confOr (confidence credential) 1.0\<rparr>)"

text \<open>\<open>formatGenericCredential\<close>, lines 171 to 180; the default system is
  \<open>"Nieokre\u015Blony"\<close>.\<close>

definition formatGenericCredential :: "runtime \<Rightarrow> credential \<Rightarrow> genericRecord" where
  "formatGenericCredential E credential =
     \<lparr>g_username = orNull (username credential),
      g_password = orNull (password credential),
      g_system = strOr (system credential) (str ''Nieokre'' @ [347] @ str ''lony''),
      g_dateExtracted = strOr (dateExtracted credential) (nowISO E),
      g_confidence = confOr (confidence credential) 1.0\<rparr>"

text \<open>A formatted record; the constructor is its property \<open>type\<close>.\<close>

datatype formatted =
    FtpRec ftpRecord
  | WebsiteRec websiteRecord
  | DomainRec domainRecord
  | EmailRec emailRecord
  | GenericRec genericRecord

fun recConfidence :: "formatted \<Rightarrow> real" where
  "recConfidence (FtpRec r) = f_confidence r"
| "recConfidence (WebsiteRec r) = w_confidence r"
| "recConfidence (DomainRec r) = d_confidence r"
| "recConfidence (EmailRec r) = e_confidence r"
| "recConfidence (GenericRec r) = g_confidence r"

text \<open>
  The chain of tests that picks the formatter. It is written out, word for word the same,
  in \<open>groupCredentialsByClient\<close> (lines 41 to 51), \<open>categorizeMigrationData\<close> (lines 234
  to 244) and \<open>createJsonFile\<close> (lines 303 to 313).
\<close>

datatype kind = KFtp | KWebsite | KDomain | KEmail | KGeneric

definition systemIncludes :: "runtime \<Rightarrow> credential \<Rightarrow> jstring \<Rightarrow> bool" where
  "systemIncludes E cred w =
     (case system cred of Val s \<Rightarrow> includesStr (toLowerCase E s) w | _ \<Rightarrow> False)"

definition credKind :: "runtime \<Rightarrow> credential \<Rightarrow> kind" where
  "credKind E cred =
     (if cred_type cred = Val (str ''ftp'') \<or> systemIncludes E cred (str ''ftp'') then KFtp
      else if cred_type cred = Val (str ''website'') \<or> systemIncludes E cred (str ''web'') then KWebsite
      else if cred_type cred = Val (str ''domain'') \<or> systemIncludes E cred (str ''domain'') then KDomain
      else if cred_type cred = Val (str ''email'')
              \<or> (case username cred of Val u \<Rightarrow> includesStr u (str ''@'') | _ \<Rightarrow> False)
              \<or> systemIncludes E cred (str ''email'') then KEmail
      else KGeneric)"

definition formatByKind :: "runtime \<Rightarrow> credential \<Rightarrow> error + formatted" where
  "formatByKind E cred =
     (case credKind E cred of
        KFtp \<Rightarrow> Inr (FtpRec (formatFTPAccount E cred))
      | KWebsite \<Rightarrow> (case formatWebsite E cred of Inl e \<Rightarrow> Inl e | Inr w \<Rightarrow> Inr (WebsiteRec w))
      | KDomain \<Rightarrow> Inr (DomainRec (formatDomain E cred))
      | KEmail \<Rightarrow> Inr (EmailRec (formatEmailAccount E cred))
      | KGeneric \<Rightarrow> Inr (GenericRec (formatGenericCredential E cred)))"

section \<open>Objects used as dictionaries\<close>

text \<open>
  \<open>groupedData\<close> and \<open>tickets\<close> are plain objects, modelled as lists of key and value
  in the order the keys were created. Two things the code inherits from that choice are
  part of the model. A key that \<open>Object.prototype\<close> defines is found on an empty object:
  \<open>obj[key]\<close> is then truthy without being an entry. And \<open>Object.keys\<close> lists the keys
  that are array indices first, in ascending order, then the others in creation order.
\<close>

definition objectPrototypeKeys :: "jstring list" where
  "objectPrototypeKeys = map str
     [''constructor'', ''__defineGetter__'', ''__defineSetter__'', ''hasOwnProperty'',
      ''__lookupGetter__'', ''__lookupSetter__'', ''isPrototypeOf'', ''propertyIsEnumerable'',
      ''toString'', ''valueOf'', ''__proto__'', ''toLocaleString'']"

definition isArrayIndex :: "jstring \<Rightarrow> bool" where
  "isArrayIndex k =
     (k \<noteq> [] \<and> list_all (\<lambda>c. 48 \<le> c \<and> c \<le> 57) k \<and> (k = [48] \<or> hd k \<noteq> 48)
      \<and> parseInt k \<le> 4294967294)"

definition objectKeys :: "(jstring \<times> 'v) list \<Rightarrow> jstring list" where
  "objectKeys obj =
     sort_key parseInt (filter isArrayIndex (map fst obj))
     @ filter (\<lambda>k. \<not> isArrayIndex k) (map fst obj)"

text \<open>Replace the value of a key that is present.\<close>

fun updateKey :: "jstring \<Rightarrow> ('v \<Rightarrow> 'v) \<Rightarrow> (jstring \<times> 'v) list \<Rightarrow> (jstring \<times> 'v) list" where
  "updateKey k f [] = []"
| "updateKey k f ((k', v) # kvs) = (if k' = k then (k', f v) # kvs else (k', v) # updateKey k f kvs)"

section \<open>groupCredentialsByClient and flattenGroupedCredentials\<close>

record ticketEntry =
  t_credentials :: "formatted list"
  t_dateCreated :: jstring

record clientEntry =
  cl_clientName :: jstring
  cl_id :: "jstring js"
  cl_dateAdded :: jstring
  cl_tickets :: "(jstring \<times> ticketEntry) list"

type_synonym grouped = "(jstring \<times> clientEntry) list"

definition clientKey :: "credential \<Rightarrow> jstring" where
  "clientKey credential = strOr (clientId credential) (str ''unknown'')"

definition ticketKey :: "credential \<Rightarrow> jstring" where
  "ticketKey credential = strOr (ticketId credential) (str ''general'')"

text \<open>The entry made for a client that has none yet, lines 20 to 27.\<close>

definition newClient :: "runtime \<Rightarrow> credential \<Rightarrow> clientEntry" where
  "newClient E credential =
     \<lparr>cl_clientName = strOr (clientName credential) (str ''Nieznany Klient''),
      cl_id = orNull (clientId credential),
      cl_dateAdded = takeWhile (\<lambda>c. c \<noteq> 84) (nowISO E),
      cl_tickets = []\<rparr>"

definition newTicket :: "runtime \<Rightarrow> ticketEntry" where
  "newTicket E = \<lparr>t_credentials = [], t_dateCreated = nowISO E\<rparr>"

definition pushCredential :: "formatted \<Rightarrow> ticketEntry \<Rightarrow> ticketEntry" where
  "pushCredential r t = t\<lparr>t_credentials := t_credentials t @ [r]\<rparr>"

text \<open>Lines 31 to 38: the ticket is made when the client has none with that key.\<close>

definition ensureTicket :: "runtime \<Rightarrow> jstring \<Rightarrow> clientEntry \<Rightarrow> clientEntry" where
  "ensureTicket E ticketId' client =
     (if map_of (cl_tickets client) ticketId' = None
      then client\<lparr>cl_tickets := cl_tickets client @ [(ticketId', newTicket E)]\<rparr>
      else client)"

text \<open>The \<open>push\<close> of lines 41 to 51, into the ticket of the client.\<close>

definition pushInto :: "jstring \<Rightarrow> formatted \<Rightarrow> clientEntry \<Rightarrow> clientEntry" where
  "pushInto ticketId' r client =
     client\<lparr>cl_tickets := updateKey ticketId' (pushCredential r) (cl_tickets client)\<rparr>"

text \<open>
  The body of \<open>credentials.forEach\<close>, lines 17 to 52. For a client key that
  \<open>Object.prototype\<close> defines, \<open>groupedData[clientId]\<close> is truthy and has no
  \<open>tickets\<close>; for such a ticket key, \<open>tickets[ticketId]\<close> is truthy and has no
  \<open>credentials\<close>: both end in a \<open>TypeError\<close>.
\<close>

definition groupStep :: "runtime \<Rightarrow> credential \<Rightarrow> grouped \<Rightarrow> error + grouped" where
  "groupStep E credential groupedData =
     (let clientId' = clientKey credential in
      if clientId' \<in> set objectPrototypeKeys then Inl TypeError
      else
        let groupedData1 = (if map_of groupedData clientId' = None
                            then groupedData @ [(clientId', newClient E credential)]
                            else groupedData);
            ticketId' = ticketKey credential
        in if ticketId' \<in> set objectPrototypeKeys then Inl TypeError
           else (case formatByKind E credential of
                   Inl e \<Rightarrow> Inl e
                 | Inr r \<Rightarrow>
                     Inr (updateKey clientId' (pushInto ticketId' r)
                            (updateKey clientId' (ensureTicket E ticketId') groupedData1))))"

fun groupLoop :: "runtime \<Rightarrow> credential list \<Rightarrow> grouped \<Rightarrow> error + grouped" where
  "groupLoop E [] groupedData = Inr groupedData"
| "groupLoop E (credential # rest) groupedData =
     (case groupStep E credential groupedData of
        Inl e \<Rightarrow> Inl e
      | Inr groupedData' \<Rightarrow> groupLoop E rest groupedData')"

text \<open>
  \<open>groupCredentialsByClient\<close>, lines 10 to 55. The argument is \<open>None\<close> when it is
  not an array.
\<close>

definition groupCredentialsByClient :: "runtime \<Rightarrow> credential list option \<Rightarrow> error + grouped" where
  "groupCredentialsByClient E credentials =
     (case credentials of
        None \<Rightarrow> Inr []
      | Some cs \<Rightarrow> if length cs = 0 then Inr [] else groupLoop E cs [])"

text \<open>A record of the flat list: the formatted record with the three properties
  \<open>flattenGroupedCredentials\<close> adds to it.\<close>

record flatCredential =
  fl_record :: formatted
  fl_clientId :: jstring
  fl_clientName :: jstring
  fl_ticketId :: jstring

text \<open>\<open>flattenGroupedCredentials\<close>, lines 255 to 281.\<close>

definition flattenTicket :: "jstring \<Rightarrow> clientEntry \<Rightarrow> jstring \<Rightarrow> flatCredential list" where
  "flattenTicket clientId' client ticketId' =
     (case map_of (cl_tickets client) ticketId' of
        None \<Rightarrow> []
      | Some ticket \<Rightarrow>
          map (\<lambda>cred. \<lparr>fl_record = cred, fl_clientId = clientId',
                        fl_clientName = cl_clientName client, fl_ticketId = ticketId'\<rparr>)
              (t_credentials ticket))"

definition flattenClient :: "grouped \<Rightarrow> jstring \<Rightarrow> flatCredential list" where
  "flattenClient groupedData clientId' =
     (case map_of groupedData clientId' of
        None \<Rightarrow> []
      | Some client \<Rightarrow>
          concat (map (flattenTicket clientId' client) (objectKeys (cl_tickets client))))"

definition flattenGroupedCredentials :: "grouped \<Rightarrow> flatCredential list" where
  "flattenGroupedCredentials groupedData =
     concat (map (flattenClient groupedData) (objectKeys groupedData))"

section \<open>categorizeMigrationData\<close>

record categorized =
  ftpAccounts :: "ftpRecord list"
  websites :: "websiteRecord list"
  domains :: "domainRecord list"
  emailAccounts :: "emailRecord list"
  otherCredentials :: "genericRecord list"

definition emptyCategorized :: categorized where
  "emptyCategorized = \<lparr>ftpAccounts = [], websites = [], domains = [], emailAccounts = [],
                        otherCredentials = []\<rparr>"

text \<open>The body of \<open>credentials.forEach\<close>, lines 233 to 245.\<close>

definition categorizeStep :: "runtime \<Rightarrow> credential \<Rightarrow> categorized \<Rightarrow> error + categorized" where
  "categorizeStep E cred result =
     (case credKind E cred of
        KFtp \<Rightarrow> Inr (result\<lparr>ftpAccounts := ftpAccounts result @ [formatFTPAccount E cred]\<rparr>)
      | KWebsite \<Rightarrow>
          (case formatWebsite E cred of
             Inl e \<Rightarrow> Inl e
           | Inr w \<Rightarrow> Inr (result\<lparr>websites := websites result @ [w]\<rparr>))
      | KDomain \<Rightarrow> Inr (result\<lparr>domains := domains result @ [formatDomain E cred]\<rparr>)
      | KEmail \<Rightarrow> Inr (result\<lparr>emailAccounts := emailAccounts result @ [formatEmailAccount E cred]\<rparr>)
      | KGeneric \<Rightarrow>
          Inr (result\<lparr>otherCredentials := otherCredentials result @ [formatGenericCredential E cred]\<rparr>))"

fun categorizeLoop :: "runtime \<Rightarrow> credential list \<Rightarrow> categorized \<Rightarrow> error + categorized" where
  "categorizeLoop E [] result = Inr result"
| "categorizeLoop E (cred # rest) result =
     (case categorizeStep E cred result of
        Inl e \<Rightarrow> Inl e
      | Inr result' \<Rightarrow> categorizeLoop E rest result')"

text \<open>\<open>categorizeMigrationData\<close>, lines 214 to 248.\<close>

definition categorizeMigrationData :: "runtime \<Rightarrow> credential list option \<Rightarrow> error + categorized" where
  "categorizeMigrationData E credentials =
     (case credentials of
        None \<Rightarrow> Inr emptyCategorized
      | Some cs \<Rightarrow> if length cs = 0 then Inr emptyCategorized
                   else categorizeLoop E cs emptyCategorized)"

section \<open>The exports\<close>

text \<open>\<open>credentials.map(cred => ...)\<close> of lines 302 to 314: the first error ends the call.\<close>

fun mapFormat :: "runtime \<Rightarrow> credential list \<Rightarrow> error + formatted list" where
  "mapFormat E [] = Inr []"
| "mapFormat E (cred # rest) =
     (case formatByKind E cred of
        Inl e \<Rightarrow> Inl e
      | Inr r \<Rightarrow> (case mapFormat E rest of Inl e \<Rightarrow> Inl e | Inr rs \<Rightarrow> Inr (r # rs)))"

datatype exportData =
    ExportCategorized categorized
  | ExportGrouped grouped
  | ExportFlat "formatted list"

text \<open>
  \<open>createJsonFile\<close>, lines 290 to 320, up to the value handed to \<open>JSON.stringify\<close>;
  the text, the blob and its URL are made of that value by the runtime.
\<close>

definition createJsonFile :: "runtime \<Rightarrow> credential list option \<Rightarrow> bool \<Rightarrow> bool \<Rightarrow> error + exportData" where
  "createJsonFile E credentials grouped' categorized' =
     (case credentials of
        None \<Rightarrow> Inl (ExportError (str ''Brak danych uwierzytelniaj'' @ [261] @ str ''cych do eksportu''))
      | Some cs \<Rightarrow>
          if length cs = 0
          then Inl (ExportError (str ''Brak danych uwierzytelniaj'' @ [261] @ str ''cych do eksportu''))
          else if categorized'
               then (case categorizeMigrationData E credentials of
                       Inl e \<Rightarrow> Inl e | Inr d \<Rightarrow> Inr (ExportCategorized d))
          else if grouped'
               then (case groupCredentialsByClient E credentials of
                       Inl e \<Rightarrow> Inl e | Inr d \<Rightarrow> Inr (ExportGrouped d))
          else (case mapFormat E cs of
                  Inl e \<Rightarrow> Inl e | Inr d \<Rightarrow> Inr (ExportFlat d)))"

text \<open>\<open>String(n)\<close> for a number that is a natural number.\<close>

fun showNat :: "nat \<Rightarrow> jstring" where
  "showNat n = (if n < 10 then [48 + n] else showNat (n div 10) @ [48 + n mod 10])"

text \<open>\<open>xs.join(sep)\<close>.\<close>

fun joinWith :: "jstring \<Rightarrow> jstring list \<Rightarrow> jstring" where
  "joinWith sep [] = []"
| "joinWith sep [x] = x"
| "joinWith sep (x # y # ys) = x @ sep @ joinWith sep (y # ys)"

text \<open>One cell of a row: \<open>`"${String(cell).replace(/"/g, '""')}"`\<close>.\<close>

definition csvCell :: "jstring \<Rightarrow> jstring" where
  "csvCell cell = [34] @ concat (map (\<lambda>c. if c = 34 then [34, 34] else [c]) cell) @ [34]"

definition csvContent :: "jstring list \<Rightarrow> jstring list list \<Rightarrow> jstring" where
  "csvContent headers rows =
     joinWith [10] (joinWith (str '','') headers # map (\<lambda>row. joinWith (str '','') (map csvCell row)) rows)"

text \<open>\<open>createCsvForCredentialType\<close>, lines 426 to 494, one definition for each type it is called with.\<close>

definition ftpCsvOf :: "ftpRecord list \<Rightarrow> jstring" where
  "ftpCsvOf credentials =
     (if length credentials = 0 then []
      else csvContent (map str [''Server'', ''Username'', ''Password'', ''Port'', ''Encryption''])
             (map (\<lambda>cred. [strOr (f_server cred) [], strOr (f_username cred) [],
                            strOr (f_password cred) [],
                            (if f_port cred \<noteq> 0 then showNat (f_port cred) else str ''21''),
                            (if f_encryption cred \<noteq> [] then f_encryption cred else str ''FTP'')])
                  credentials))"

definition websitesCsvOf :: "websiteRecord list \<Rightarrow> jstring" where
  "websitesCsvOf credentials =
     (if length credentials = 0 then []
      else csvContent (map str [''URL'', ''Hostname'', ''Username'', ''Password'', ''CMS''])
             (map (\<lambda>cred. [strOr (w_url cred) [], strOr (w_hostname cred) [],
                            strOr (w_username cred) [], strOr (w_password cred) [],
                            strOr (w_cms cred) []])
                  credentials))"

definition domainsCsvOf :: "domainRecord list \<Rightarrow> jstring" where
  "domainsCsvOf credentials =
     (if length credentials = 0 then []
      else csvContent (map str [''Domain'', ''Nameservers''])
             (map (\<lambda>cred. [strOr (d_domain cred) [], joinWith (str '', '') (d_nameservers cred)])
                  credentials))"

definition emailCsvOf :: "emailRecord list \<Rightarrow> jstring" where
  "emailCsvOf credentials =
     (if length credentials = 0 then []
      else csvContent (map str [''Email'', ''Password'', ''Server'', ''IMAP Port'', ''SMTP Port'', ''POP3 Port''])
             (map (\<lambda>cred. [strOr (e_email cred) [], strOr (e_password cred) [],
                            strOr (e_server cred) [],
                            (if e_imapPort cred \<noteq> 0 then showNat (e_imapPort cred) else []),
                            (if e_smtpPort cred \<noteq> 0 then showNat (e_smtpPort cred) else []),
                            (case e_pop3 cred of
                               Some p \<Rightarrow> if p \<noteq> 0 then showNat p else []
                             | None \<Rightarrow> [])])
                  credentials))"

definition genericCsvOf :: "genericRecord list \<Rightarrow> jstring" where
  "genericCsvOf credentials =
     (if length credentials = 0 then []
      else csvContent (map str [''Username'', ''Password'', ''System''])
             (map (\<lambda>cred. [strOr (g_username cred) [], strOr (g_password cred) [],
                            (if g_system cred \<noteq> [] then g_system cred else [])])
                  credentials))"

record csvExport =
  ftpCsv :: jstring
  websitesCsv :: jstring
  domainsCsv :: jstring
  emailCsv :: jstring
  genericCsv :: jstring

text \<open>\<open>exportCredentialsToCSV\<close>, lines 396 to 418.\<close>

definition exportCredentialsToCSV :: "runtime \<Rightarrow> credential list option \<Rightarrow> error + csvExport" where
  "exportCredentialsToCSV E credentials =
     (case credentials of
        None \<Rightarrow> Inl (ExportError (str ''Brak danych do eksportu''))
      | Some cs \<Rightarrow>
          if length cs = 0 then Inl (ExportError (str ''Brak danych do eksportu''))
          else (case categorizeMigrationData E credentials of
                  Inl e \<Rightarrow> Inl e
                | Inr categorized' \<Rightarrow>
                    Inr \<lparr>ftpCsv = ftpCsvOf (ftpAccounts categorized'),
                         websitesCsv = websitesCsvOf (websites categorized'),
                         domainsCsv = domainsCsvOf (domains categorized'),
                         emailCsv = emailCsvOf (emailAccounts categorized'),
                         genericCsv = genericCsvOf (otherCredentials categorized')\<rparr>))"

section \<open>mergeCredentials\<close>

text \<open>A string property inside a template literal: \<open>`${x}`\<close>.\<close>

fun showS :: "jstring js \<Rightarrow> jstring" where
  "showS Undefined = str ''undefined''"
| "showS Null = str ''null''"
| "showS (Val s) = s"

text \<open>The key of lines 511 to 523.\<close>

definition uniqueKey :: "credential \<Rightarrow> jstring" where
  "uniqueKey cred =
     (if cred_type cred = Val (str ''ftp'') \<or> truthyS (server cred)
      then str ''ftp-'' @ showS (server cred) @ str ''-'' @ showS (username cred)
      else if cred_type cred = Val (str ''website'') \<or> truthyS (url cred)
      then str ''website-'' @ showS (url cred) @ str ''-'' @ showS (username cred)
      else if cred_type cred = Val (str ''domain'') \<or> truthyS (domain cred)
      then str ''domain-'' @ showS (domain cred)
      else if cred_type cred = Val (str ''email'')
              \<or> (truthyS (username cred)
                  \<and> (case username cred of Val u \<Rightarrow> includesStr u (str ''@'') | _ \<Rightarrow> False))
      then str ''email-'' @ showS (orS (email cred) (username cred))
      else str ''generic-'' @ showS (username cred) @ str ''-'' @ showS (system cred))"

text \<open>The body of \<open>allCredentials.forEach\<close>, lines 509 to 530, on the set of keys seen
  and the list of credentials kept.\<close>

fun mergeLoop :: "credential list \<Rightarrow> jstring set \<Rightarrow> credential list \<Rightarrow> credential list" where
  "mergeLoop [] uniqueKeys mergedCredentials = mergedCredentials"
| "mergeLoop (cred # rest) uniqueKeys mergedCredentials =
     (if uniqueKey cred \<notin> uniqueKeys
      then mergeLoop rest (insert (uniqueKey cred) uniqueKeys) (mergedCredentials @ [cred])
      else mergeLoop rest uniqueKeys mergedCredentials)"

text \<open>\<open>mergeCredentials\<close>, lines 501 to 533, applied to its arguments, each an array.\<close>

definition mergeCredentials :: "credential list list \<Rightarrow> credential list" where
  "mergeCredentials credentialsArrays = mergeLoop (concat credentialsArrays) {} []"

text \<open>
  The spec's reading of the merge, in its words: of the flattened input, the candidates
  that are the first occurrence of their key, in the order they appear.
\<close>

definition firstOccurrences :: "('a \<Rightarrow> 'k) \<Rightarrow> 'a list \<Rightarrow> 'a list" where
  "firstOccurrences key xs =
     map (\<lambda>i. xs ! i) (filter (\<lambda>i. \<forall>j < i. key (xs ! j) \<noteq> key (xs ! i)) [0 ..< length xs])"

text \<open>
  The identity key in the spec's words, to compare with \<open>uniqueKey\<close>: the kind is the one
  the classifier gives, and the key is the pair or the single field the spec names for
  that kind.
\<close>

datatype identity =
    FtpIdentity "jstring js" "jstring js"
  | WebsiteIdentity "jstring js" "jstring js"
  | DomainIdentity "jstring js"
  | EmailIdentity "jstring js"
  | GenericIdentity "jstring js" "jstring js"

definition identityKey :: "runtime \<Rightarrow> credential \<Rightarrow> identity" where
  "identityKey E cred =
     (case credKind E cred of
        KFtp \<Rightarrow> FtpIdentity (server cred) (username cred)
      | KWebsite \<Rightarrow> WebsiteIdentity (url cred) (username cred)
      | KDomain \<Rightarrow> DomainIdentity (domain cred)
      | KEmail \<Rightarrow> EmailIdentity (orS (email cred) (username cred))
      | KGeneric \<Rightarrow> GenericIdentity (username cred) (system cred))"

section \<open>Notions for the round trip of grouping and flattening\<close>

text \<open>\<open>flatten(group(records))\<close>, the composition the spec speaks of.\<close>

definition regroup :: "runtime \<Rightarrow> credential list \<Rightarrow> error + flatCredential list" where
  "regroup E cs =
     (case groupCredentialsByClient E (Some cs) of
        Inl e \<Rightarrow> Inl e
      | Inr groupedData \<Rightarrow> Inr (flattenGroupedCredentials groupedData))"

text \<open>The client name of a group: that of the first credential with the client key.\<close>

fun firstClientName :: "credential list \<Rightarrow> jstring \<Rightarrow> jstring" where
  "firstClientName [] k = []"
| "firstClientName (c # cs) k =
     (if clientKey c = k then strOr (clientName c) (str ''Nieznany Klient'')
      else firstClientName cs k)"

text \<open>What the round trip makes of a credential \<open>c\<close> formatted as \<open>r\<close>, within the array \<open>cs\<close>.\<close>

definition roundTrip :: "credential list \<Rightarrow> credential \<Rightarrow> formatted \<Rightarrow> flatCredential" where
  "roundTrip cs c r =
     \<lparr>fl_record = r, fl_clientId = clientKey c,
      fl_clientName = firstClientName cs (clientKey c), fl_ticketId = ticketKey c\<rparr>"

text \<open>The entries of a dictionary in creation order, and the grouped data read that way.\<close>

definition flatObj :: "(jstring \<Rightarrow> 'v \<Rightarrow> 'a list) \<Rightarrow> (jstring \<times> 'v) list \<Rightarrow> 'a list" where
  "flatObj F obj = concat (map (\<lambda>kv. F (fst kv) (snd kv)) obj)"

definition flatTicketIns :: "jstring \<Rightarrow> jstring \<Rightarrow> jstring \<Rightarrow> ticketEntry \<Rightarrow> flatCredential list" where
  "flatTicketIns cid name tid ticket =
     map (\<lambda>cred. \<lparr>fl_record = cred, fl_clientId = cid, fl_clientName = name, fl_ticketId = tid\<rparr>)
         (t_credentials ticket)"

definition flatClientIns :: "jstring \<Rightarrow> clientEntry \<Rightarrow> flatCredential list" where
  "flatClientIns cid client = flatObj (flatTicketIns cid (cl_clientName client)) (cl_tickets client)"

definition flatIns :: "grouped \<Rightarrow> flatCredential list" where
  "flatIns g = flatObj flatClientIns g"

text \<open>No key occurs twice, among the clients and among the tickets of each.\<close>

definition wellKeyed :: "grouped \<Rightarrow> bool" where
  "wellKeyed g = (distinct (map fst g) \<and> list_all (\<lambda>kv. distinct (map fst (cl_tickets (snd kv)))) g)"

definition nameAfter :: "grouped \<Rightarrow> credential list \<Rightarrow> jstring \<Rightarrow> jstring" where
  "nameAfter g cs k = (case map_of g k of Some cl \<Rightarrow> cl_clientName cl | None \<Rightarrow> firstClientName cs k)"

definition flatAs :: "jstring \<Rightarrow> credential \<Rightarrow> formatted \<Rightarrow> flatCredential" where
  "flatAs name c r = \<lparr>fl_record = r, fl_clientId = clientKey c, fl_clientName = name,
                      fl_ticketId = ticketKey c\<rparr>"
section \<open>The domain rule in the spec's words\<close>

text \<open>
  The notions the spec's rule for domains speaks of, to compare with
  \<open>extractDomainInfo\<close>. A word begins a string in any letter case when each of its
  letters is there in one of its two cases; a string contains the word when it begins
  one of its suffixes.
\<close>

fun startsWithCI :: "string \<Rightarrow> jstring \<Rightarrow> bool" where
  "startsWithCI [] s = True"
| "startsWithCI (c # cs) [] = False"
| "startsWithCI (c # cs) (d # ds) = (d \<in> set (casePair (of_char c)) \<and> startsWithCI cs ds)"

fun includesCI :: "jstring \<Rightarrow> string \<Rightarrow> bool" where
  "includesCI [] w = (w = [])"
| "includesCI (c # cs) w = (startsWithCI w (c # cs) \<or> includesCI cs w)"

text \<open>The text names no domain: none of the words of \<open>patterns.domain\<close> is in it. Each
  of \<open>domeny\<close>, \<open>domen\<close> with e ogonek and \<open>domen\<close> alone begins with \<open>domen\<close>.\<close>

definition namesNoDomain :: "jstring \<Rightarrow> bool" where
  "namesNoDomain text = (\<not> includesCI text ''domen'' \<and> \<not> includesCI text ''domain'')"

text \<open>The matches of a pattern with the flag \<open>g\<close> in a text, from left to right, each
  search starting where the match before it ended: what \<open>text.matchAll(pattern)\<close> lists.\<close>

definition allMatches :: "regex \<Rightarrow> jstring \<Rightarrow> rmatch list option" where
  "allMatches pattern text = whileExecG pattern text (\<lambda>m found. found @ [m]) 0 []"

text \<open>The matches of several patterns: all those of the first, then all those of the
  second, and so on.\<close>

fun allMatchesOf :: "regex list \<Rightarrow> jstring \<Rightarrow> rmatch list option" where
  "allMatchesOf [] text = Some []"
| "allMatchesOf (p # ps) text =
     (case allMatches p text of
        None \<Rightarrow> None
      | Some found \<Rightarrow> (case allMatchesOf ps text of None \<Rightarrow> None | Some later \<Rightarrow> Some (found @ later)))"

text \<open>The domain candidate of a match whose capture \<open>g\<close> holds the name.\<close>

definition domainFrom :: "jstring list \<Rightarrow> nat \<Rightarrow> real \<Rightarrow> rmatch \<Rightarrow> domainInfo" where
  "domainFrom ns g conf m =
     \<lparr>di_domain = capture m g, di_nameservers = ns, di_type = str ''domain'',
      di_index = index m, di_confidence = conf\<rparr>"

text \<open>One candidate for each host name among the web addresses, in the order the host
  names first appear, with confidence 0.8.\<close>

definition synthesizedDomains :: "jstring list \<Rightarrow> rmatch list \<Rightarrow> domainInfo list" where
  "synthesizedDomains ns urls =
     map (domainFrom ns 2 0.8) (firstOccurrences (\<lambda>m. capture m 2) urls)"

text \<open>One candidate for each name that follows a word for a domain, in the order the names
  first appear, with confidence 0.9.\<close>

definition namedDomains :: "jstring list \<Rightarrow> rmatch list \<Rightarrow> domainInfo list" where
  "namedDomains ns named =
     map (domainFrom ns 1 0.9) (firstOccurrences (\<lambda>m. capture m 1) named)"

section \<open>Example inputs\<close>

text \<open>The text of the spec's FTP example:
  \<^verbatim>\<open>"serwer FTP: ftp.example.com\nlogin: alice\nhas\u0142o: s3cret"\<close>.\<close>

definition ftpExampleText :: jstring where
  "ftpExampleText = str ''serwer FTP: ftp.example.com'' @ [10] @ str ''login: alice'' @ [10]
                    @ str ''has'' @ [322] @ str ''o: s3cret''"

definition ftpShortText :: jstring where
  "ftpShortText = str ''FTP: files.example.org''"

text \<open>A name server block followed by \<open>domena: foo.com\<close>, and the same text with the
  word \<open>domeny\<close>.\<close>

definition domenaText :: jstring where
  "domenaText = str ''Serwery DNS: ns1.foo.com, ns2.foo.com'' @ [10] @ str ''domena: foo.com''"

definition domenyText :: jstring where
  "domenyText = str ''Serwery DNS: ns1.foo.com, ns2.foo.com'' @ [10] @ str ''domeny: foo.com''"

text \<open>A name server block and a web address, with no domain named.\<close>

definition nsUrlText :: jstring where
  "nsUrlText = str ''nameservers: ns1.foo.com'' @ [10] @ str ''https://www.foo.com/index''"

text \<open>A name server block and three web addresses on two hosts, with no domain named.\<close>

definition nsTwoUrlText :: jstring where
  "nsTwoUrlText = str ''nameservers: ns1.foo.com'' @ [10]
       @ str ''https://www.foo.com/a http://shop.foo.com https://www.foo.com/b''"

text \<open>A name server whose own name holds the letters \<open>domain\<close>, and a web address.\<close>

definition domainControlText :: jstring where
  "domainControlText = str ''nameservers: ns51.domaincontrol.com'' @ [10] @ str ''https://www.myshop.pl''"

text \<open>
  A runtime for the examples. \<open>exampleHostname\<close> gives the host of a string written
  \<open>http://host\<close> or \<open>https://host\<close>, alone or followed by a path, and fails on any
  other string; on the strings of the examples that is what \<open>new URL(s).hostname\<close>
  does: without a scheme, as in \<open>example.com\<close>, the constructor throws.
\<close>

definition hostOf :: "jstring \<Rightarrow> jstring" where
  "hostOf s = takeWhile (\<lambda>c. c \<notin> set (str ''/?#:'')) s"

definition exampleHostname :: "jstring \<Rightarrow> jstring option" where
  "exampleHostname s =
     (if isPrefix (str ''https://'') s then Some (hostOf (drop 8 s))
      else if isPrefix (str ''http://'') s then Some (hostOf (drop 7 s))
      else None)"

definition exampleRuntime :: runtime where
  "exampleRuntime = \<lparr>toLowerCase = lowerPL, urlHostname = exampleHostname,
                      nowISO = str ''2024-05-01T10:00:00.000Z''\<rparr>"

text \<open>The credential with no property at all, \<open>{}\<close>.\<close>

definition blankCredential :: credential where
  "blankCredential =
     \<lparr>cred_type = Undefined, system = Undefined, server = Undefined, username = Undefined,
      password = Undefined, port = Undefined, encryption = Undefined, dateExtracted = Undefined,
      confidence = Undefined, url = Undefined, loginUrl = Undefined, domain = Undefined,
      registrar = Undefined, nameservers = Undefined, currentNameservers = Undefined,
      email = Undefined, imapSettings = Undefined, smtpSettings = Undefined,
      popSettings = Undefined, imapPort = Undefined, smtpPort = Undefined, popPort = Undefined,
      clientId = Undefined, clientName = Undefined, ticketId = Undefined\<rparr>"

text \<open>An FTP candidate of confidence 0, and the same with confidence 0.7.\<close>

definition ftpZeroConfidence :: credential where
  "ftpZeroConfidence =
     blankCredential\<lparr>cred_type := Val (str ''ftp''), server := Val (str ''ftp.example.com''),
                      username := Val (str ''alice''), confidence := Val 0\<rparr>"

definition ftpSureCredential :: credential where
  "ftpSureCredential = ftpZeroConfidence\<lparr>confidence := Val 0.7\<rparr>"

text \<open>A website candidate whose \<open>url\<close> lacks the scheme, and one with a full address.\<close>

definition websiteNoScheme :: credential where
  "websiteNoScheme = blankCredential\<lparr>cred_type := Val (str ''website''), url := Val (str ''example.com'')\<rparr>"

definition websiteGood :: credential where
  "websiteGood = blankCredential\<lparr>cred_type := Val (str ''website''),
                                  url := Val (str ''https://example.com/wp-admin'')\<rparr>"

text \<open>The text of the spec's mailbox example: \<open>login: bob\<close> just before the address.\<close>

definition loginBobText :: jstring where
  "loginBobText = str ''Migracja skrzynek:'' @ [10] @ str ''login: bob'' @ [10] @ str ''bob@example.com''"

text \<open>Two mailboxes of one mail server, tagged as email, with no user name.\<close>

definition mailboxA :: credential where
  "mailboxA = blankCredential\<lparr>cred_type := Val (str ''email''), email := Val (str ''a@example.com''),
                               server := Val (str ''mail.example.com'')\<rparr>"

definition mailboxB :: credential where
  "mailboxB = mailboxA\<lparr>email := Val (str ''b@example.com'')\<rparr>"

text \<open>Two FTP candidates of the client \<open>c1\<close>, entered under two client names.\<close>

definition annaCredential :: credential where
  "annaCredential =
     blankCredential\<lparr>cred_type := Val (str ''ftp''), server := Val (str ''ftp.example.com''),
                      username := Val (str ''anna''), clientId := Val (str ''c1''),
                      clientName := Val (str ''Anna''),
                      dateExtracted := Val (str ''2024-04-30T08:00:00.000Z'')\<rparr>"

definition borysCredential :: credential where
  "borysCredential = annaCredential\<lparr>username := Val (str ''borys''), clientName := Val (str ''Borys'')\<rparr>"

text \<open>A mail server configuration, as lines 354 to 380 would build it with the default ports.\<close>

definition exampleMailConfig :: mailServerConfig where
  "exampleMailConfig = \<lparr>mc_server = Val (str ''mail.example.com''), mc_imapPort = 993,
                         mc_smtpPort = 465, mc_popPort = 995, mc_encryption = str ''SSL/TLS''\<rparr>"

section \<open>Facts about the matcher\<close>

declare reps.simps [simp del] searchFrom.simps [simp del] showNat.simps [simp del]
  splitOn.simps [simp del]

text \<open>Every state a pattern reaches lies further in the input, by at least \<open>minLen\<close>.\<close>

lemma repBound_step:
  "hi \<noteq> Some 0 \<Longrightarrow> repBound lo hi \<le> Suc (repBound (lo - 1) (map_option (\<lambda>h. h - 1) hi))"
  by (cases hi) (auto simp: repBound_def)

lemma reps_consumes:
  assumes f: "\<And>x y. y \<in> set (f x) \<Longrightarrow> \<exists>pre. fst x = pre @ fst y \<and> k \<le> length pre"
  shows "y \<in> set (reps f lo hi g x) \<Longrightarrow>
         \<exists>pre. fst x = pre @ fst y \<and> repBound lo hi * k \<le> length pre"
  using f
proof (induction f lo hi g x arbitrary: y rule: reps.induct)
  case (1 f lo hi g x)
  show ?case
  proof (cases "hi = Some 0")
    case True
    with "1.prems"(1) have "y = x" by (simp add: reps.simps)
    with True show ?thesis by (simp add: repBound_def)
  next
    case False
    let ?hi' = "map_option (\<lambda>h. h - 1) hi"
    let ?more = "concat (map (\<lambda>z. if lo = 0 \<and> length (fst x) \<le> length (fst z) then []
                                     else reps f (lo - 1) ?hi' g z) (f x))"
    from "1.prems"(1) False have mem: "y \<in> set ?more \<or> (lo = 0 \<and> y = x)"
      by (subst (asm) reps.simps) (auto simp: Let_def split: if_splits)
    then show ?thesis
    proof
      assume "lo = 0 \<and> y = x"
      then show ?thesis by (cases hi) (auto simp: repBound_def)
    next
      assume "y \<in> set ?more"
      then obtain z where z: "z \<in> set (f x)"
        and guard: "\<not> (lo = 0 \<and> length (fst x) \<le> length (fst z))"
        and y: "y \<in> set (reps f (lo - 1) ?hi' g z)"
        by (auto split: if_splits)
      from "1.IH" [OF False z guard y "1.prems"(2)]
      obtain pre2 where pre2: "fst z = pre2 @ fst y"
        "repBound (lo - 1) ?hi' * k \<le> length pre2" by blast
      from "1.prems"(2) [OF z] obtain pre1 where pre1: "fst x = pre1 @ fst z" "k \<le> length pre1"
        by blast
      have "repBound lo hi * k \<le> Suc (repBound (lo - 1) ?hi') * k"
        using repBound_step [OF False, of lo] by (rule mult_le_mono1)
      also have "\<dots> \<le> length (pre1 @ pre2)" using pre1(2) pre2(2) by simp
      finally have "repBound lo hi * k \<le> length (pre1 @ pre2)" .
      moreover have "fst x = (pre1 @ pre2) @ fst y" using pre1(1) pre2(1) by simp
      ultimately show ?thesis by blast
    qed
  qed
qed

lemma ms_consumes:
  "y \<in> set (ms r x) \<Longrightarrow> \<exists>pre. fst x = pre @ fst y \<and> minLen r \<le> length pre"
proof (induction r arbitrary: x y)
  case (One cs)
  then show ?case by (cases x) (auto split: list.splits if_splits)
next
  case (Cls rs)
  then show ?case by (cases x) (auto split: list.splits if_splits)
next
  case (NCls rs)
  then show ?case by (cases x) (auto split: list.splits if_splits)
next
  case Eps
  then show ?case by simp
next
  case (Seq a b)
  from Seq.prems obtain z where z: "z \<in> set (ms a x)" and y: "y \<in> set (ms b z)" by auto
  from Seq.IH(1) [OF z] obtain p1 where p1: "fst x = p1 @ fst z" "minLen a \<le> length p1" by blast
  from Seq.IH(2) [OF y] obtain p2 where p2: "fst z = p2 @ fst y" "minLen b \<le> length p2" by blast
  have "fst x = (p1 @ p2) @ fst y" using p1(1) p2(1) by simp
  moreover have "minLen (Seq a b) \<le> length (p1 @ p2)" using p1(2) p2(2) by simp
  ultimately show ?case by blast
next
  case (Alt a b)
  from Alt.prems have "y \<in> set (ms a x) \<or> y \<in> set (ms b x)" by simp
  then show ?case
  proof
    assume "y \<in> set (ms a x)"
    from Alt.IH(1) [OF this] show ?thesis by (auto intro: min.coboundedI1)
  next
    assume "y \<in> set (ms b x)"
    from Alt.IH(2) [OF this] show ?thesis by (auto intro: min.coboundedI2)
  qed
next
  case (Rep lo hi g r)
  from Rep.prems have "y \<in> set (reps (ms r) lo hi g x)" by simp
  from reps_consumes [of "ms r" "minLen r", OF Rep.IH this]
  show ?case by simp
next
  case (Grp n r)
  from Grp.prems obtain z where z: "z \<in> set (ms r x)" and y: "fst y = fst z" by auto
  from Grp.IH [OF z] y show ?case by simp
qed

lemma searchFrom_bounds:
  "searchFrom r i s = Some m \<Longrightarrow>
     i \<le> index m \<and> index m + length (matched m) \<le> i + length s \<and> minLen r \<le> length (matched m)"
proof (induction r i s rule: searchFrom.induct)
  case (1 r i s)
  show ?case
  proof (cases "ms r (s, [])")
    case Nil
    show ?thesis
    proof (cases s)
      case Nil': Nil
      with Nil "1.prems" show ?thesis by (simp add: searchFrom.simps)
    next
      case (Cons c t)
      with Nil "1.prems" have "searchFrom r (Suc i) t = Some m"
        by (simp add: searchFrom.simps)
      from "1.IH" [OF Nil Cons this] Cons show ?thesis by simp
    qed
  next
    case (Cons y ys)
    then have "y \<in> set (ms r (s, []))" by simp
    from ms_consumes [OF this] obtain pre where pre: "s = pre @ fst y" "minLen r \<le> length pre"
      by auto
    from Cons "1.prems" have m: "m = \<lparr>index = i, matched = take (length s - length (fst y)) s, groups = snd y\<rparr>"
      by (simp add: searchFrom.simps)
    have "take (length s - length (fst y)) s = pre" using pre(1) by simp
    with m pre show ?thesis by simp
  qed
qed

lemma execAt_bounds:
  "execAt r text lastIndex = Some m \<Longrightarrow>
     lastIndex \<le> index m \<and> index m + length (matched m) \<le> length text
     \<and> minLen r \<le> length (matched m)"
  using searchFrom_bounds [of r lastIndex "drop lastIndex text" m]
  by (auto simp: execAt_def split: if_splits)

text \<open>A loop over the matches of a pattern with the \<open>g\<close> flag ends when the pattern
  matches no empty string.\<close>

lemma whileExecG_terminates:
  assumes "0 < minLen pattern"
  shows "\<exists>s'. whileExecG pattern text body lastIndex s = Some s'"
proof (induction "Suc (length text) - lastIndex" arbitrary: lastIndex s rule: less_induct)
  case less
  show ?case
  proof (cases "execAt pattern text lastIndex")
    case None
    then show ?thesis by (subst whileExecG.simps) simp
  next
    case (Some m)
    from execAt_bounds [OF Some] assms
    have "lastIndex < index m + length (matched m)" "index m + length (matched m) \<le> length text"
      by auto
    then have "Suc (length text) - (index m + length (matched m)) < Suc (length text) - lastIndex"
      by arith
    from less [OF this] obtain s' where
      "whileExecG pattern text body (index m + length (matched m)) (body m s) = Some s'" by blast
    with Some show ?thesis by (subst whileExecG.simps) simp
  qed
qed

text \<open>An invariant of the state that every turn of the body keeps holds when the loop ends.\<close>

lemma whileExecG_invariant:
  assumes returned: "whileExecG pattern text body lastIndex s = Some s'"
    and init: "P s"
    and step: "\<And>m li s. execAt pattern text li = Some m \<Longrightarrow> P s \<Longrightarrow> P (body m s)"
  shows "P s'"
proof -
  have "P s \<longrightarrow> P s'"
  proof (rule whileExecG.raw_induct
          [where P = "\<lambda>p t b li s s'. p = pattern \<and> t = text \<and> b = body \<longrightarrow> P s \<longrightarrow> P s'",
           OF _ returned, THEN mp])
    fix loop p t b li st res
    assume IH: "\<And>p t b li st res. loop p t b li st = Some res \<Longrightarrow>
                  p = pattern \<and> t = text \<and> b = body \<longrightarrow> P st \<longrightarrow> P res"
      and unfolded: "(case execAt p t li of None \<Rightarrow> Some st
                      | Some m \<Rightarrow> loop p t b (index m + length (matched m)) (b m st)) = Some res"
    show "p = pattern \<and> t = text \<and> b = body \<longrightarrow> P st \<longrightarrow> P res"
    proof (intro impI)
      assume eq: "p = pattern \<and> t = text \<and> b = body" and st: "P st"
      show "P res"
      proof (cases "execAt p t li")
        case None
        with unfolded st show ?thesis by simp
      next
        case (Some m)
        with unfolded have "loop p t b (index m + length (matched m)) (b m st) = Some res" by simp
        moreover have "P (b m st)" using step [of li m st] Some eq st by simp
        ultimately show ?thesis using IH eq by blast
      qed
    qed
  qed simp
  with init show ?thesis by simp
qed


text \<open>The definitions to unfold when a pattern is run on a given text.\<close>

lemmas regex_defs =
  exec_def execAt_def str_def seqs_def ci_def lit_def opt_def star_def plus_def lazyStar_def ws_def
  wsRanges_def hostName_def hostChar_def alpha_def digit_def casePair_def inRanges_def
  notColon_def userChar_def secretChar_def uzytkownik_def haslo_pl_def ftpOrSerwerFtp_def
  reps.simps searchFrom.simps

lemmas domain_defs =
  domainPatterns_def nameserverSectionPatterns_def nameserverPatterns_def websiteRegex_def
  nsLabel_def domainGap_def e_ogonek_def o_acute_def
section \<open>First occurrences\<close>

lemma firstOccurrences_Nil: "firstOccurrences key [] = []"
  by (simp add: firstOccurrences_def)

lemma firstOccurrences_Cons:
  "firstOccurrences key (x # xs) = x # filter (\<lambda>y. key y \<noteq> key x) (firstOccurrences key xs)"
proof -
  have upt: "[0 ..< length (x # xs)] = 0 # map Suc [0 ..< length xs]"
    by (simp add: upt_conv_Cons map_Suc_upt del: upt_Suc)
  have cond: "(\<forall>j < Suc i. key ((x # xs) ! j) \<noteq> key (xs ! i))
              \<longleftrightarrow> (\<forall>j < i. key (xs ! j) \<noteq> key (xs ! i)) \<and> key (xs ! i) \<noteq> key x" for i
    by (auto simp: All_less_Suc2)
  show ?thesis
    unfolding firstOccurrences_def upt
    by (simp add: filter_map o_def cond del: upt_Suc)
qed


section \<open>Facts about the loops over matches\<close>

lemma whileExec_returns_only_without_match:
  assumes returned: "whileExec pattern text body s = Some r"
  shows "exec pattern text = None"
  by (rule whileExec.raw_induct [where P = "\<lambda>p t b s r. exec p t = None", OF _ returned])
     (auto split: option.splits)

lemma whileExec_diverges:
  "exec pattern text = Some m \<Longrightarrow> whileExec pattern text body s = None"
  using whileExec_returns_only_without_match [of pattern "text" body s]
  by (cases "whileExec pattern text body s") auto
section \<open>When the FTP extractor returns\<close>

lemma whileExec_without_match: "exec pattern text = None \<Longrightarrow> whileExec pattern text body s = Some s"
  by (subst whileExec.simps) simp

lemma forEach_whileExec:
  "forEachOpt (\<lambda>pattern s. whileExec pattern text body s) ps s =
     (if \<forall>p \<in> set ps. exec p text = None then Some s else None)"
proof (induction ps)
  case Nil
  then show ?case by simp
next
  case (Cons p ps)
  show ?case
  proof (cases "exec p text")
    case None
    with Cons show ?thesis by (simp add: whileExec_without_match)
  next
    case (Some m)
    then show ?thesis by (simp add: whileExec_diverges)
  qed
qed

lemma ipRegex_nonempty: "0 < minLen ipRegex"
  by (simp add: ipRegex_def octet_def seqs_def ci_def lit_def digit_def repBound_def)

text \<open>
  The FTP extractor returns exactly on the texts in which no server pattern matches: it
  never returns a server that one of \<open>patterns.ftpServer\<close> found.
\<close>

lemma extractFtpCredentials_returns_iff:
  "(\<exists>accounts. extractFtpCredentials E text = Some accounts)
   \<longleftrightarrow> (\<forall>p \<in> set ftpServerPatterns. exec p text = None)"
proof (cases "\<forall>p \<in> set ftpServerPatterns. exec p text = None")
  case True
  obtain servers where "whileExecG ipRegex text (pushFtpIp E text) 0 [] = Some servers"
    using whileExecG_terminates [OF ipRegex_nonempty, of "text" "pushFtpIp E text" 0 "[]"] by auto
  with True show ?thesis
    by (simp add: extractFtpCredentials_def forEach_whileExec)
next
  case False
  then have "forEachOpt (\<lambda>pattern s. whileExec pattern text pushFtpServer s) ftpServerPatterns []
             = None"
    by (simp only: forEach_whileExec if_False)
  then have "extractFtpCredentials E text = None"
    by (simp add: extractFtpCredentials_def)
  with False show ?thesis by simp
qed

text \<open>The policy of the body of \<open>ftpServers.forEach\<close>: a record is made only with a user
  name, its confidence is 0.9 with a password and 0.7 without, and its port is never 0.\<close>

lemma ftpAccountFor_policy:
  "a \<in> set (ftpAccountFor text srv) \<Longrightarrow>
     truthyS (fa_username a) \<and> fa_server a = ref_server srv \<and> fa_port a \<noteq> 0
     \<and> fa_confidence a = (if truthyS (fa_password a) then 0.9 else 0.7)"
  by (auto simp: ftpAccountFor_def Let_def split: if_splits js.splits option.splits)

lemma ftpAccountFor_default_port:
  "firstMatch ftpPortPatterns (getNearbyText text (ref_index srv) 300) = None \<Longrightarrow>
   a \<in> set (ftpAccountFor text srv) \<Longrightarrow> fa_port a = 21"
  by (auto simp: ftpAccountFor_def Let_def split: if_splits)


section \<open>The FTP extractor on a text that names a server\<close>

lemma ftpExample_anchor:
  "exec (ftpServerPatterns ! 0) ftpExampleText =
     Some \<lparr>index = 0, matched = str ''serwer FTP: ftp.example.com'',
           groups = [(1, str ''ftp.example.com'')]\<rparr>"
  by (simp add: regex_defs ftpServerPatterns_def ftpExampleText_def)

text \<open>
  What the body of \<open>ftpServers.forEach\<close> makes of the server of the example, were the
  loop before it to end: the record the spec expects.
\<close>

lemma ftpExample_account:
  "ftpAccountFor ftpExampleText \<lparr>ref_server = Val (str ''ftp.example.com''), ref_index = 0\<rparr> =
     [\<lparr>fa_server = Val (str ''ftp.example.com''), fa_username = Val (str ''alice''),
       fa_password = Val (str ''s3cret''), fa_port = 21, fa_type = str ''ftp'',
       fa_confidence = 0.9\<rparr>]"
  by (simp add: regex_defs ftpAccountFor_def getNearbyText_def substring_def firstCapture_def
      capture_def ftpUsernamePatterns_def ftpPasswordPatterns_def ftpPortPatterns_def
      ftpExampleText_def)

text \<open>
  C2. On the spec's example
  \<^verbatim>\<open>"serwer FTP: ftp.example.com\nlogin: alice\nhas\u0142o: s3cret"\<close> the FTP extractor
  returns nothing at all: the first server pattern matches at offset 0, and the loop of
  line 74 repeats that same match for ever. The expected single candidate is never returned.
\<close>

theorem C2_ftp_example_never_returns:
  "extractFtpCredentials E ftpExampleText = None"
proof -
  have "whileExec (ftpServerPatterns ! 0) ftpExampleText pushFtpServer [] = None"
    by (rule whileExec_diverges [OF ftpExample_anchor])
  then show ?thesis
    by (simp add: extractFtpCredentials_def ftpServerPatterns_def)
qed


section \<open>The domain extractor\<close>

lemma forEachOpt_total:
  "(\<And>x s. x \<in> set xs \<Longrightarrow> \<exists>s'. body x s = Some s') \<Longrightarrow> \<exists>s'. forEachOpt body xs s = Some s'"
proof (induction xs arbitrary: s)
  case Nil
  then show ?case by simp
next
  case (Cons x xs)
  from Cons.prems [of x s] obtain s1 where s1: "body x s = Some s1" by auto
  from Cons.IH [of s1] Cons.prems obtain s2 where "forEachOpt body xs s1 = Some s2" by auto
  with s1 show ?case by simp
qed

lemma nameserverPatterns_nonempty: "p \<in> set nameserverPatterns \<Longrightarrow> 0 < minLen p"
  by (auto simp: nameserverPatterns_def nsLabel_def seqs_def lit_def plus_def hostName_def
      hostChar_def alpha_def digit_def repBound_def)

lemma domainPatterns_nonempty: "p \<in> set domainPatterns \<Longrightarrow> 0 < minLen p"
  by (auto simp: domainPatterns_def seqs_def ci_def lit_def plus_def hostName_def
      hostChar_def alpha_def repBound_def)

lemma websiteRegex_nonempty: "0 < minLen websiteRegex"
  by (simp add: websiteRegex_def seqs_def ci_def lit_def plus_def hostName_def
      hostChar_def alpha_def repBound_def)

lemma findNameservers_total: "\<exists>ns. findNameservers text = Some ns"
proof (cases "firstMatch nameserverSectionPatterns text")
  case None
  then show ?thesis by (simp add: findNameservers_def)
next
  case (Some nsMatch)
  let ?block = "substring text (index nsMatch) (min (length text) (index nsMatch + 400))"
  have "\<exists>ns. forEachOpt (\<lambda>nsPattern ns. whileExecG nsPattern ?block pushNameserver 0 ns)
               nameserverPatterns [] = Some ns"
    by (rule forEachOpt_total) (rule whileExecG_terminates, rule nameserverPatterns_nonempty)
  with Some show ?thesis by (auto simp: findNameservers_def Let_def)
qed

lemma explicitDomains_total: "\<exists>ds. explicitDomains text ns = Some ds"
  unfolding explicitDomains_def
  by (rule forEachOpt_total) (rule whileExecG_terminates, rule domainPatterns_nonempty)

lemma domenaText_nameservers:
  "findNameservers domenaText = Some [str ''ns1.foo.com'', str ''ns2.foo.com'']"
  by (simp add: findNameservers_def regex_defs domain_defs domenaText_def substring_def
      whileExecG.simps pushNameserver_def capture_def pushNsLine_def splitOn.simps trim_def
      isWs_def testWhole_def)

lemma domenaText_domains: "extractDomainInfo domenaText = Some []"
  by (simp add: extractDomainInfo_def domenaText_nameservers explicitDomains_def)
     (simp add: regex_defs domain_defs domenaText_def whileExecG.simps pushDomain_def capture_def)

lemma domenyText_nameservers:
  "findNameservers domenyText = Some [str ''ns1.foo.com'', str ''ns2.foo.com'']"
  by (simp add: findNameservers_def regex_defs domain_defs domenyText_def substring_def
      whileExecG.simps pushNameserver_def capture_def pushNsLine_def splitOn.simps trim_def
      isWs_def testWhole_def)

lemma domenyText_domains:
  "extractDomainInfo domenyText =
     Some [\<lparr>di_domain = Val (str ''foo.com''),
            di_nameservers = [str ''ns1.foo.com'', str ''ns2.foo.com''],
            di_type = str ''domain'', di_index = 38, di_confidence = 0.9\<rparr>]"
  by (simp add: extractDomainInfo_def domenyText_nameservers explicitDomains_def)
     (simp add: regex_defs domain_defs domenyText_def whileExecG.simps pushDomain_def capture_def)

subsection \<open>The loops as folds over the matches\<close>

text \<open>A loop over the matches of a pattern that matches no empty string does to its state
  what folding the body over the list of the matches does.\<close>

lemma whileExecG_fold:
  assumes "0 < minLen pattern"
  shows "\<exists>found. (\<forall>acc. whileExecG pattern text (\<lambda>m found. found @ [m]) lastIndex acc = Some (acc @ found))
                 \<and> (\<forall>s. whileExecG pattern text body lastIndex s = Some (fold body found s))"
proof (induction "Suc (length text) - lastIndex" arbitrary: lastIndex rule: less_induct)
  case less
  show ?case
  proof (cases "execAt pattern text lastIndex")
    case None
    have "\<forall>acc. whileExecG pattern text (\<lambda>m found. found @ [m]) lastIndex acc = Some (acc @ [])"
      using None by (subst whileExecG.simps) simp
    moreover have "\<forall>s. whileExecG pattern text body lastIndex s = Some (fold body [] s)"
      using None by (subst whileExecG.simps) simp
    ultimately show ?thesis by blast
  next
    case (Some m)
    let ?next = "index m + length (matched m)"
    from execAt_bounds [OF Some] assms
    have "lastIndex < ?next" "?next \<le> length text" by auto
    then have "Suc (length text) - ?next < Suc (length text) - lastIndex" by arith
    from less [OF this] obtain found where
      collected: "\<And>acc. whileExecG pattern text (\<lambda>m found. found @ [m]) ?next acc = Some (acc @ found)"
      and folded: "\<And>s. whileExecG pattern text body ?next s = Some (fold body found s)"
      by blast
    have "\<forall>acc. whileExecG pattern text (\<lambda>m found. found @ [m]) lastIndex acc = Some (acc @ m # found)"
      using Some collected by (subst whileExecG.simps) simp
    moreover have "\<forall>s. whileExecG pattern text body lastIndex s = Some (fold body (m # found) s)"
      using Some folded by (subst whileExecG.simps) simp
    ultimately show ?thesis by blast
  qed
qed

lemma allMatches_fold:
  assumes "0 < minLen pattern"
  shows "\<exists>found. allMatches pattern text = Some found
                 \<and> (\<forall>s. whileExecG pattern text body 0 s = Some (fold body found s))"
proof -
  from whileExecG_fold [OF assms, of "text" 0 body] obtain found where
    "\<And>acc. whileExecG pattern text (\<lambda>m found. found @ [m]) 0 acc = Some (acc @ found)"
    "\<And>s. whileExecG pattern text body 0 s = Some (fold body found s)"
    by blast
  then show ?thesis by (auto simp: allMatches_def)
qed

lemma allMatchesOf_fold:
  assumes "\<And>p. p \<in> set ps \<Longrightarrow> 0 < minLen p"
  shows "\<exists>found. allMatchesOf ps text = Some found
                 \<and> (\<forall>s. forEachOpt (\<lambda>p s. whileExecG p text body 0 s) ps s = Some (fold body found s))"
  using assms
proof (induction ps)
  case Nil
  then show ?case by simp
next
  case (Cons p ps)
  from allMatches_fold [of p "text" body] Cons.prems obtain found where
    found: "allMatches p text = Some found"
      "\<And>s. whileExecG p text body 0 s = Some (fold body found s)"
    by auto
  from Cons.IH Cons.prems obtain later where
    later: "allMatchesOf ps text = Some later"
      "\<And>s. forEachOpt (\<lambda>p s. whileExecG p text body 0 s) ps s = Some (fold body later s)"
    by auto
  from found later show ?case by simp
qed

text \<open>Folding the body of lines 664 to 679 over a list of matches adds, in order, the
  candidate of each match that is the first with its name and whose name is new.\<close>

lemma named_already:
  "list_ex (\<lambda>d. di_domain d = c) ds \<longleftrightarrow> c \<in> di_domain ` set ds"
  by (force simp: list_ex_iff)

lemma fold_pushDomain:
  "fold (pushDomain ns g conf) found ds =
     ds @ map (domainFrom ns g conf)
            (filter (\<lambda>m. capture m g \<notin> di_domain ` set ds) (firstOccurrences (\<lambda>m. capture m g) found))"
proof (induction found arbitrary: ds)
  case Nil
  then show ?case by (simp add: firstOccurrences_Nil)
next
  case (Cons m found)
  let ?fo = "firstOccurrences (\<lambda>m. capture m g) found"
  show ?case
  proof (cases "capture m g \<in> di_domain ` set ds")
    case True
    then have same: "pushDomain ns g conf m ds = ds"
      by (simp add: pushDomain_def Let_def named_already)
    have "filter (\<lambda>y. capture y g \<notin> di_domain ` set ds) (filter (\<lambda>y. capture y g \<noteq> capture m g) ?fo)
          = filter (\<lambda>y. capture y g \<notin> di_domain ` set ds) ?fo"
      using True by (auto intro: filter_cong)
    with True same show ?thesis by (simp add: Cons.IH firstOccurrences_Cons)
  next
    case False
    then have pushed: "pushDomain ns g conf m ds = ds @ [domainFrom ns g conf m]"
      by (simp add: pushDomain_def Let_def named_already domainFrom_def)
    have "filter (\<lambda>y. capture y g \<notin> di_domain ` set (ds @ [domainFrom ns g conf m])) ?fo
          = filter (\<lambda>y. capture y g \<notin> di_domain ` set ds) (filter (\<lambda>y. capture y g \<noteq> capture m g) ?fo)"
      by (auto simp: domainFrom_def intro: filter_cong)
    with False pushed show ?thesis by (simp add: Cons.IH firstOccurrences_Cons)
  qed
qed

lemma firstOccurrences_empty: "firstOccurrences key xs = [] \<longleftrightarrow> xs = []"
  by (cases xs) (simp_all add: firstOccurrences_Nil firstOccurrences_Cons)

text \<open>
  What \<open>extractDomainInfo\<close> returns, on every text: with \<open>ns\<close> the name servers of the
  first section, \<open>named\<close> the matches of \<open>patterns.domain\<close> and \<open>urls\<close> those of
  \<open>websiteRegex\<close>, the candidates of the web addresses when there are name servers and
  \<open>patterns.domain\<close> matches nowhere, and the candidates of the matches of
  \<open>patterns.domain\<close> otherwise.
\<close>

lemma extractDomainInfo_characterised:
  "\<exists>ns named urls.
      findNameservers text = Some ns \<and> allMatchesOf domainPatterns text = Some named
      \<and> allMatches websiteRegex text = Some urls
      \<and> extractDomainInfo text =
          Some (if ns \<noteq> [] \<and> named = [] then synthesizedDomains ns urls else namedDomains ns named)"
proof -
  obtain ns where ns: "findNameservers text = Some ns"
    using findNameservers_total by blast
  from allMatchesOf_fold [of domainPatterns "text" "pushDomain ns 1 0.9"] domainPatterns_nonempty
  obtain named where named: "allMatchesOf domainPatterns text = Some named"
    and "\<And>s. forEachOpt (\<lambda>p s. whileExecG p text (pushDomain ns 1 0.9) 0 s) domainPatterns s
              = Some (fold (pushDomain ns 1 0.9) named s)"
    by blast
  then have explicit: "explicitDomains text ns = Some (namedDomains ns named)"
    by (simp add: explicitDomains_def fold_pushDomain namedDomains_def)
  from allMatches_fold [OF websiteRegex_nonempty, of "text" "pushDomain ns 2 0.8"]
  obtain urls where urls: "allMatches websiteRegex text = Some urls"
    and "\<And>s. whileExecG websiteRegex text (pushDomain ns 2 0.8) 0 s
              = Some (fold (pushDomain ns 2 0.8) urls s)"
    by blast
  then have made: "whileExecG websiteRegex text (pushDomain ns 2 0.8) 0 [] = Some (synthesizedDomains ns urls)"
    by (simp add: fold_pushDomain synthesizedDomains_def)
  have none: "namedDomains ns named = [] \<longleftrightarrow> named = []"
    by (simp add: namedDomains_def firstOccurrences_empty)
  have "extractDomainInfo text =
          Some (if ns \<noteq> [] \<and> named = [] then synthesizedDomains ns urls else namedDomains ns named)"
    using ns explicit made none by (auto simp: extractDomainInfo_def)
  with ns named urls show ?thesis by blast
qed

subsection \<open>A text without the words for a domain\<close>

lemma ci_Nil: "ci [] = Eps"
  by (simp add: ci_def seqs_def)

lemma ci_Cons: "ci (c # cs) = Seq (One (casePair (of_char c))) (ci cs)"
  by (simp add: ci_def seqs_def)

text \<open>A literal under the \<open>i\<close> flag matches only where its word begins the input.\<close>

lemma ms_ci_starts: "ms (ci w) x \<noteq> [] \<Longrightarrow> startsWithCI w (fst x)"
proof (induction w arbitrary: x)
  case Nil
  then show ?case by simp
next
  case (Cons c cs)
  show ?case
  proof (cases "fst x")
    case Nil
    with Cons.prems show ?thesis by (simp add: ci_Cons)
  next
    case input: (Cons d t)
    with Cons.prems have d: "d \<in> set (casePair (of_char c))" and rest: "ms (ci cs) (t, snd x) \<noteq> []"
      by (auto simp: ci_Cons split: if_splits)
    from Cons.IH [OF rest] d input show ?thesis by simp
  qed
qed

lemma startsWithCI_append: "startsWithCI (u @ v) s \<Longrightarrow> startsWithCI u s"
  by (induction u s rule: startsWithCI.induct) auto

lemma includesCI_drop: "startsWithCI w (drop k s) \<Longrightarrow> w \<noteq> [] \<Longrightarrow> includesCI s w"
proof (induction s arbitrary: k)
  case Nil
  then show ?case by (cases w) auto
next
  case (Cons c cs)
  show ?case
  proof (cases k)
    case 0
    with Cons.prems show ?thesis by simp
  next
    case (Suc k')
    with Cons.prems have "startsWithCI w (drop k' cs)" by simp
    from Cons.IH [OF this Cons.prems(2)] show ?thesis by simp
  qed
qed

lemma ms_ci_absent:
  assumes "u \<noteq> []" "\<not> includesCI s u"
  shows "ms (ci (u @ v)) (drop k s, caps) = []"
proof (rule ccontr)
  assume "ms (ci (u @ v)) (drop k s, caps) \<noteq> []"
  from ms_ci_starts [OF this] have "startsWithCI u (drop k s)"
    by (auto dest: startsWithCI_append)
  from includesCI_drop [OF this assms(1)] assms(2) show False by simp
qed

text \<open>Every state a pattern reaches from a suffix of the text holds a suffix of the text.\<close>

lemma ms_suffix:
  assumes "y \<in> set (ms r x)" "fst x = drop k text"
  shows "\<exists>k'. fst y = drop k' text"
proof -
  from ms_consumes [OF assms(1)] obtain pre where "fst x = pre @ fst y" by blast
  then have "fst y = drop (length pre) (fst x)" by simp
  with assms(2) have "fst y = drop (k + length pre) text" by (simp add: add.commute)
  then show ?thesis by blast
qed

lemma ms_Seq_later: "(\<And>y. y \<in> set (ms a x) \<Longrightarrow> ms b y = []) \<Longrightarrow> ms (Seq a b) x = []"
  by auto

lemma searchFrom_no_match:
  "(\<And>k. ms r (drop k s, []) = []) \<Longrightarrow> searchFrom r i s = None"
proof (induction r i s rule: searchFrom.induct)
  case (1 r i s)
  have here: "ms r (s, []) = []" using "1.prems" [of 0] by simp
  show ?case
  proof (cases s)
    case Nil
    with here show ?thesis by (simp add: searchFrom.simps)
  next
    case (Cons c t)
    have "searchFrom r (Suc i) t = None"
    proof (rule "1.IH" [OF here Cons])
      fix k
      show "ms r (drop k t, []) = []" using "1.prems" [of "Suc k"] Cons by simp
    qed
    with here Cons show ?thesis by (simp add: searchFrom.simps)
  qed
qed

text \<open>In a text without \<open>domen\<close> and \<open>domain\<close> no pattern of \<open>patterns.domain\<close> matches.\<close>

lemma domain_words_absent:
  assumes "namesNoDomain text" "fst x = drop k text"
  shows "ms (ci ''domen'') x = []" "ms (ci ''domain'') x = []" "ms (ci ''domeny'') x = []"
proof -
  from assms(1) have no: "\<not> includesCI text ''domen''" "\<not> includesCI text ''domain''"
    by (simp_all add: namesNoDomain_def)
  obtain caps where x: "x = (drop k text, caps)" using assms(2) by (cases x) simp
  show "ms (ci ''domen'') x = []"
    using ms_ci_absent [where u = "''domen''" and v = "[]" and s = "text" and k = k and caps = caps] no x by simp
  show "ms (ci ''domain'') x = []"
    using ms_ci_absent [where u = "''domain''" and v = "[]" and s = "text" and k = k and caps = caps] no x by simp
  show "ms (ci ''domeny'') x = []"
    using ms_ci_absent [where u = "''domen''" and v = "''y''" and s = "text" and k = k and caps = caps] no x by simp
qed

lemma domainPatterns_no_match:
  assumes no: "namesNoDomain text" and p: "p \<in> set domainPatterns"
  shows "exec p text = None"
  unfolding exec_def
proof (rule searchFrom_no_match)
  fix k
  from p have "p = domainPatterns ! 0 \<or> p = domainPatterns ! 1"
    by (auto simp: domainPatterns_def)
  then show "ms p (drop k text, []) = []"
  proof
    assume "p = domainPatterns ! 0"
    then show ?thesis
      using domain_words_absent [OF no, of "(drop k text, [])" k]
      by (simp add: domainPatterns_def seqs_def)
  next
    assume second: "p = domainPatterns ! 1"
    let ?start = "Alt (ci ''przekierowanie'') (ci ''przeniesienie'')"
    let ?word = "Alt (ci ''domeny'') (seqs [ci ''domen'', opt (ci ''y'')])"
    let ?rest = "seqs [domainGap, Grp 1 hostName]"
    have shape: "p = Seq ?start (Seq (plus ws) (Seq ?word ?rest))"
      using second by (simp add: domainPatterns_def seqs_def)
    have "ms (Seq ?start (Seq (plus ws) (Seq ?word ?rest))) (drop k text, []) = []"
    proof (rule ms_Seq_later)
      fix y
      assume "y \<in> set (ms ?start (drop k text, []))"
      from ms_suffix [OF this, of k "text"] obtain k1 where k1: "fst y = drop k1 text" by auto
      show "ms (Seq (plus ws) (Seq ?word ?rest)) y = []"
      proof (rule ms_Seq_later)
        fix z
        assume "z \<in> set (ms (plus ws) y)"
        from ms_suffix [OF this k1] obtain k2 where k2: "fst z = drop k2 text" by auto
        from domain_words_absent [OF no k2] show "ms (Seq ?word ?rest) z = []"
          by (simp add: seqs_def)
      qed
    qed
    with shape show ?thesis by simp
  qed
qed

lemma allMatches_without_match: "exec p text = None \<Longrightarrow> allMatches p text = Some []"
  by (simp add: allMatches_def exec_def execAt_def whileExecG.simps)

lemma namesNoDomain_no_matches:
  assumes "namesNoDomain text"
  shows "allMatchesOf domainPatterns text = Some []"
proof -
  have "allMatchesOf ps text = Some []" if "\<And>p. p \<in> set ps \<Longrightarrow> exec p text = None" for ps
    using that by (induction ps) (simp_all add: allMatches_without_match)
  then show ?thesis using domainPatterns_no_match [OF assms] by blast
qed

subsection \<open>Examples\<close>

lemma nsTwoUrlText_nameservers:
  "findNameservers nsTwoUrlText = Some [str ''ns1.foo.com'']"
  by (simp add: findNameservers_def regex_defs domain_defs nsTwoUrlText_def substring_def
      whileExecG.simps pushNameserver_def capture_def pushNsLine_def splitOn.simps trim_def
      isWs_def testWhole_def)

lemma nsTwoUrlText_urls:
  "allMatches websiteRegex nsTwoUrlText =
     Some [\<lparr>index = 25, matched = str ''https://www.foo.com'',
            groups = [(1, str ''https://www.foo.com''), (2, str ''www.foo.com'')]\<rparr>,
           \<lparr>index = 47, matched = str ''http://shop.foo.com'',
            groups = [(1, str ''http://shop.foo.com''), (2, str ''shop.foo.com'')]\<rparr>,
           \<lparr>index = 67, matched = str ''https://www.foo.com'',
            groups = [(1, str ''https://www.foo.com''), (2, str ''www.foo.com'')]\<rparr>]"
  by (simp add: allMatches_def regex_defs domain_defs nsTwoUrlText_def whileExecG.simps)

lemma nsTwoUrlText_names_no_domain: "namesNoDomain nsTwoUrlText"
  by (simp add: namesNoDomain_def nsTwoUrlText_def str_def casePair_def)

text \<open>The letters \<open>domain\<close> inside the name of a name server count as a word for a domain:
  the rest of the name is returned, and the web address is not looked at.\<close>

lemma domainControlText_domains:
  "extractDomainInfo domainControlText =
     Some [\<lparr>di_domain = Val (str ''control.com''),
            di_nameservers = [str ''ns51.domaincontrol.com''],
            di_type = str ''domain'', di_index = 18, di_confidence = 0.9\<rparr>]"
proof -
  have "findNameservers domainControlText = Some [str ''ns51.domaincontrol.com'']"
    by (simp add: findNameservers_def regex_defs domain_defs domainControlText_def substring_def
        whileExecG.simps pushNameserver_def capture_def pushNsLine_def splitOn.simps trim_def
        isWs_def testWhole_def)
  then show ?thesis
    by (simp add: extractDomainInfo_def explicitDomains_def)
       (simp add: regex_defs domain_defs domainControlText_def whileExecG.simps pushDomain_def
          capture_def)
qed

text \<open>
  C4, as the code has it. For every text the domain extractor returns, and every domain
  it returns carries the name servers of the first name server section of the text (none
  when there is no section). When there are name servers and \<open>patterns.domain\<close> matches
  nowhere in the text, as in every text without the letters \<open>domen\<close> and \<open>domain\<close>,
  the domains returned are exactly those made from the web addresses of the text: one for
  each host name, in the order the host names first appear, with confidence 0.8. The words
  that name a domain are \<open>domeny\<close>, \<open>domen\<close> followed by e with ogonek, and \<open>domain\<close>,
  not \<open>domena\<close>: a text with the name servers \<open>ns1.foo.com\<close>, \<open>ns2.foo.com\<close> and
  \<open>domeny: foo.com\<close> gives the one record of \<open>foo.com\<close> with both name servers.
\<close>

theorem C4_nameservers_on_every_domain:
  "(\<exists>ns named urls ds.
      findNameservers text = Some ns \<and> allMatchesOf domainPatterns text = Some named
      \<and> allMatches websiteRegex text = Some urls \<and> extractDomainInfo text = Some ds
      \<and> (\<forall>d \<in> set ds. di_nameservers d = ns)
      \<and> (ns \<noteq> [] \<and> named = [] \<longrightarrow> ds = synthesizedDomains ns urls)
      \<and> (namesNoDomain text \<longrightarrow> named = []))
   \<and> extractDomainInfo domenyText =
       Some [\<lparr>di_domain = Val (str ''foo.com''),
              di_nameservers = [str ''ns1.foo.com'', str ''ns2.foo.com''],
              di_type = str ''domain'', di_index = 38, di_confidence = 0.9\<rparr>]"
proof (rule conjI)
  from extractDomainInfo_characterised [of "text"] obtain ns named urls where
    ns: "findNameservers text = Some ns"
    and named: "allMatchesOf domainPatterns text = Some named"
    and urls: "allMatches websiteRegex text = Some urls"
    and result: "extractDomainInfo text =
          Some (if ns \<noteq> [] \<and> named = [] then synthesizedDomains ns urls else namedDomains ns named)"
    by blast
  let ?ds = "if ns \<noteq> [] \<and> named = [] then synthesizedDomains ns urls else namedDomains ns named"
  have carried: "\<forall>d \<in> set ?ds. di_nameservers d = ns"
    by (auto simp: synthesizedDomains_def namedDomains_def domainFrom_def)
  have made: "ns \<noteq> [] \<and> named = [] \<longrightarrow> ?ds = synthesizedDomains ns urls"
    by simp
  have words: "namesNoDomain text \<longrightarrow> named = []"
    using namesNoDomain_no_matches [of "text"] named by auto
  from ns named urls result carried made words
  show "\<exists>ns named urls ds.
      findNameservers text = Some ns \<and> allMatchesOf domainPatterns text = Some named
      \<and> allMatches websiteRegex text = Some urls \<and> extractDomainInfo text = Some ds
      \<and> (\<forall>d \<in> set ds. di_nameservers d = ns)
      \<and> (ns \<noteq> [] \<and> named = [] \<longrightarrow> ds = synthesizedDomains ns urls)
      \<and> (namesNoDomain text \<longrightarrow> named = [])"
    by blast
next
  show "extractDomainInfo domenyText =
       Some [\<lparr>di_domain = Val (str ''foo.com''),
              di_nameservers = [str ''ns1.foo.com'', str ''ns2.foo.com''],
              di_type = str ''domain'', di_index = 38, di_confidence = 0.9\<rparr>]"
    by (rule domenyText_domains)
qed

text \<open>
  The theorem at a text with one name server, no word for a domain and three web
  addresses on two hosts: the domains are the two hosts, each once, in the order they
  first appear, with the name server and confidence 0.8.
\<close>

theorem C4_nameservers_on_every_domain_witness:
  "findNameservers nsTwoUrlText = Some [str ''ns1.foo.com'']
   \<and> namesNoDomain nsTwoUrlText
   \<and> map_option (map (\<lambda>m. capture m 2)) (allMatches websiteRegex nsTwoUrlText) =
       Some [Val (str ''www.foo.com''), Val (str ''shop.foo.com''), Val (str ''www.foo.com'')]
   \<and> extractDomainInfo nsTwoUrlText =
       Some [\<lparr>di_domain = Val (str ''www.foo.com''), di_nameservers = [str ''ns1.foo.com''],
              di_type = str ''domain'', di_index = 25, di_confidence = 0.8\<rparr>,
             \<lparr>di_domain = Val (str ''shop.foo.com''), di_nameservers = [str ''ns1.foo.com''],
              di_type = str ''domain'', di_index = 47, di_confidence = 0.8\<rparr>]"
proof -
  from C4_nameservers_on_every_domain [of nsTwoUrlText] obtain ns named urls ds where
    found: "findNameservers nsTwoUrlText = Some ns" "allMatches websiteRegex nsTwoUrlText = Some urls"
      "extractDomainInfo nsTwoUrlText = Some ds"
    and named: "allMatchesOf domainPatterns nsTwoUrlText = Some named"
    and made: "ns \<noteq> [] \<and> named = [] \<longrightarrow> ds = synthesizedDomains ns urls"
    and words: "namesNoDomain nsTwoUrlText \<longrightarrow> named = []"
    by blast
  from found(1) nsTwoUrlText_nameservers have ns: "ns = [str ''ns1.foo.com'']" by simp
  from words nsTwoUrlText_names_no_domain have "named = []" by simp
  with made ns have "ds = synthesizedDomains [str ''ns1.foo.com''] urls" by simp
  moreover from found(2) nsTwoUrlText_urls have
    "urls = [\<lparr>index = 25, matched = str ''https://www.foo.com'',
            groups = [(1, str ''https://www.foo.com''), (2, str ''www.foo.com'')]\<rparr>,
           \<lparr>index = 47, matched = str ''http://shop.foo.com'',
            groups = [(1, str ''http://shop.foo.com''), (2, str ''shop.foo.com'')]\<rparr>,
           \<lparr>index = 67, matched = str ''https://www.foo.com'',
            groups = [(1, str ''https://www.foo.com''), (2, str ''www.foo.com'')]\<rparr>]"
    by simp
  ultimately have "ds = [\<lparr>di_domain = Val (str ''www.foo.com''), di_nameservers = [str ''ns1.foo.com''],
              di_type = str ''domain'', di_index = 25, di_confidence = 0.8\<rparr>,
             \<lparr>di_domain = Val (str ''shop.foo.com''), di_nameservers = [str ''ns1.foo.com''],
              di_type = str ''domain'', di_index = 47, di_confidence = 0.8\<rparr>]"
    by (simp add: synthesizedDomains_def firstOccurrences_Cons firstOccurrences_Nil domainFrom_def
        capture_def str_def)
  with found(3) nsTwoUrlText_nameservers nsTwoUrlText_names_no_domain nsTwoUrlText_urls
  show ?thesis by (simp add: capture_def)
qed

text \<open>
  C4 as the spec states it fails: with the name servers found and the domain written
  \<open>domena: foo.com\<close>, the extractor returns no domain at all. The word \<open>domena\<close>
  is none of the words of \<open>patterns.domain\<close>.
\<close>

theorem C4_domena_counterexample:
  "findNameservers domenaText = Some [str ''ns1.foo.com'', str ''ns2.foo.com'']
   \<and> extractDomainInfo domenaText = Some []"
  using domenaText_nameservers domenaText_domains by simp

section \<open>The mail extractor\<close>

text \<open>The call of line 353 raises before the text is looked at, so no run of the extractor
  returns a list of candidates.\<close>

lemma extractEmailAccounts_raises: "extractEmailAccounts E text = Some (Inl TypeError)"
  by (simp add: extractEmailAccounts_def arrayExec_def)

text \<open>The body of the loop of lines 386 to 425 leaves out an address that follows a login
  word; on any other address it raises at line 406.\<close>

lemma pushEmail_skips_login:
  "loginBefore E text (index m) \<Longrightarrow> pushEmail E text config m accounts = Inr accounts"
  by (simp add: pushEmail_def Let_def)

lemma pushEmail_result:
  "pushEmail E text config m accounts =
     (if loginBefore E text (index m) then Inr accounts else Inl TypeError)"
  by (simp add: pushEmail_def Let_def arrayExec_def)

lemma emailAddressPattern_nonempty: "0 < minLen emailAddressPattern"
  by (simp add: emailAddressPattern_def seqs_def lit_def plus_def hostName_def repBound_def)

text \<open>The loop over the addresses ends, from every offset.\<close>

lemma emailLoop_returns: "\<exists>r. emailLoop E text config lastIndex accounts = Some r"
proof (induction "Suc (length text) - lastIndex" arbitrary: lastIndex accounts rule: less_induct)
  case less
  show ?case
  proof (cases "execAt emailAddressPattern text lastIndex")
    case None
    then show ?thesis by (subst emailLoop.simps) simp
  next
    case (Some m)
    show ?thesis
    proof (cases "pushEmail E text config m accounts")
      case (Inl e)
      with Some show ?thesis by (subst emailLoop.simps) simp
    next
      case (Inr accounts')
      from execAt_bounds [OF Some] emailAddressPattern_nonempty
      have "lastIndex < index m + length (matched m)" "index m + length (matched m) \<le> length text"
        by auto
      then have "Suc (length text) - (index m + length (matched m)) < Suc (length text) - lastIndex"
        by arith
      from less [OF this] obtain r where
        "emailLoop E text config (index m + length (matched m)) accounts' = Some r" by blast
      with Some Inr show ?thesis by (subst emailLoop.simps) simp
    qed
  qed
qed

text \<open>An invariant of the list of candidates that every turn of the body keeps holds of the
  list the loop returns.\<close>

lemma emailLoop_invariant:
  assumes returned: "emailLoop E text config lastIndex accounts = Some (Inr accounts')"
    and init: "P accounts"
    and step: "\<And>m li acc acc'. execAt emailAddressPattern text li = Some m \<Longrightarrow> P acc \<Longrightarrow>
                 pushEmail E text config m acc = Inr acc' \<Longrightarrow> P acc'"
  shows "P accounts'"
proof -
  have "P accounts \<longrightarrow> P accounts'"
  proof (rule emailLoop.raw_induct
          [where P = "\<lambda>E' t c li acc res. E' = E \<and> t = text \<and> c = config \<longrightarrow>
                        (\<forall>acc'. res = Inr acc' \<longrightarrow> P acc \<longrightarrow> P acc')",
           OF _ returned, THEN mp, THEN spec, THEN mp])
    fix loop E' t c li acc res
    assume IH: "\<And>E' t c li acc res. loop E' t c li acc = Some res \<Longrightarrow>
                  E' = E \<and> t = text \<and> c = config \<longrightarrow> (\<forall>acc'. res = Inr acc' \<longrightarrow> P acc \<longrightarrow> P acc')"
      and unfolded: "(case execAt emailAddressPattern t li of
                        None \<Rightarrow> Some (Inr acc)
                      | Some emailMatch \<Rightarrow>
                          (case pushEmail E' t c emailMatch acc of
                             Inl e \<Rightarrow> Some (Inl e)
                           | Inr acc'' \<Rightarrow> loop E' t c (index emailMatch + length (matched emailMatch)) acc''))
                     = Some res"
    show "E' = E \<and> t = text \<and> c = config \<longrightarrow> (\<forall>acc'. res = Inr acc' \<longrightarrow> P acc \<longrightarrow> P acc')"
    proof (intro impI allI)
      fix acc'
      assume eq: "E' = E \<and> t = text \<and> c = config" and res: "res = Inr acc'" and acc: "P acc"
      show "P acc'"
      proof (cases "execAt emailAddressPattern t li")
        case None
        with unfolded res acc show ?thesis by simp
      next
        case (Some m)
        show ?thesis
        proof (cases "pushEmail E' t c m acc")
          case (Inl e)
          with Some unfolded res show ?thesis by simp
        next
          case (Inr acc'')
          with Some unfolded have "loop E' t c (index m + length (matched m)) acc'' = Some res"
            by simp
          moreover have "P acc''" using step [of li m acc acc''] Some Inr eq acc by simp
          ultimately show ?thesis using IH eq res by blast
        qed
      qed
    qed
  qed simp_all
  with init show ?thesis by simp
qed

text \<open>Every candidate the body adds is for an address with no login word before it.\<close>

lemma pushEmail_origin:
  assumes pushed: "pushEmail E text config m acc = Inr acc'"
    and found: "execAt emailAddressPattern text li = Some m"
    and a: "a \<in> set acc'"
  shows "a \<in> set acc
         \<or> (ea_email a = capture m 1 \<and> \<not> loginBefore E text (index m))"
  using pushed a
  by (auto simp: pushEmail_def Let_def split: if_splits sum.splits)

lemma loginBobText_address:
  "execAt emailAddressPattern loginBobText 0 =
     Some \<lparr>index = 30, matched = str ''bob@example.com'', groups = [(1, str ''bob@example.com'')]\<rparr>"
  by (simp add: regex_defs emailAddressPattern_def loginBobText_def)

lemma loginBobText_end: "execAt emailAddressPattern loginBobText 45 = None"
  by (simp add: regex_defs emailAddressPattern_def loginBobText_def)

lemma loginBobText_login: "loginBefore exampleRuntime loginBobText 30"
  by (simp add: loginBefore_def exampleRuntime_def lowerPL_def lowerChar_def loginBobText_def
      substring_def str_def)

text \<open>The loop on the spec's example: the one address of the text follows \<open>login: bob\<close>,
  and no candidate is made, with or without a mail server configuration.\<close>

lemma loginBobText_loop: "emailLoop exampleRuntime loginBobText config 0 [] = Some (Inr [])"
  by (subst emailLoop.simps, simp add: loginBobText_address pushEmail_result loginBobText_login,
      subst emailLoop.simps, simp add: loginBobText_end str_def)

text \<open>
  C5. An address that has a login word in the 20 code units before it makes no mailbox
  candidate. The body of the loop of lines 386 to 425 leaves the list of candidates as it
  is on such an address, for every text, configuration and list; the loop over the
  addresses of a text ends from every offset, and every candidate in a list it returns was
  there at the start or is for an address with no login word before it. (No run of
  \<open>extractEmailAccounts\<close> gets as far as the loop: lemma \<open>extractEmailAccounts_raises\<close>.)
\<close>

theorem C5_login_address_makes_no_candidate:
  "(loginBefore E text (index m) \<longrightarrow> pushEmail E text config m accounts = Inr accounts)
   \<and> (\<exists>r. emailLoop E text config lastIndex accounts = Some r)
   \<and> (emailLoop E text config lastIndex accounts = Some (Inr accounts') \<longrightarrow>
        (\<forall>a \<in> set accounts'.
           a \<in> set accounts
           \<or> (\<exists>li m. execAt emailAddressPattern text li = Some m \<and> ea_email a = capture m 1
                     \<and> \<not> loginBefore E text (index m))))"
proof (intro conjI impI)
  assume "loginBefore E text (index m)"
  then show "pushEmail E text config m accounts = Inr accounts"
    by (rule pushEmail_skips_login)
next
  show "\<exists>r. emailLoop E text config lastIndex accounts = Some r"
    by (rule emailLoop_returns)
next
  assume returned: "emailLoop E text config lastIndex accounts = Some (Inr accounts')"
  show "\<forall>a \<in> set accounts'.
           a \<in> set accounts
           \<or> (\<exists>li m. execAt emailAddressPattern text li = Some m \<and> ea_email a = capture m 1
                     \<and> \<not> loginBefore E text (index m))"
  proof (rule emailLoop_invariant [OF returned, where P = "\<lambda>acc. \<forall>a \<in> set acc.
           a \<in> set accounts
           \<or> (\<exists>li m. execAt emailAddressPattern text li = Some m \<and> ea_email a = capture m 1
                     \<and> \<not> loginBefore E text (index m))"])
    show "\<forall>a \<in> set accounts.
           a \<in> set accounts
           \<or> (\<exists>li m. execAt emailAddressPattern text li = Some m \<and> ea_email a = capture m 1
                     \<and> \<not> loginBefore E text (index m))"
      by simp
  next
    fix m li acc acc'
    assume found: "execAt emailAddressPattern text li = Some m"
      and inv: "\<forall>a \<in> set acc.
           a \<in> set accounts
           \<or> (\<exists>li m. execAt emailAddressPattern text li = Some m \<and> ea_email a = capture m 1
                     \<and> \<not> loginBefore E text (index m))"
      and pushed: "pushEmail E text config m acc = Inr acc'"
    show "\<forall>a \<in> set acc'.
           a \<in> set accounts
           \<or> (\<exists>li m. execAt emailAddressPattern text li = Some m \<and> ea_email a = capture m 1
                     \<and> \<not> loginBefore E text (index m))"
    proof
      fix a
      assume "a \<in> set acc'"
      from pushEmail_origin [OF pushed found this] inv found
      show "a \<in> set accounts
           \<or> (\<exists>li m. execAt emailAddressPattern text li = Some m \<and> ea_email a = capture m 1
                     \<and> \<not> loginBefore E text (index m))"
        by blast
    qed
  qed
qed

text \<open>
  The theorem at the spec's example, \<open>login: bob\<close> just before \<open>bob@example.com\<close>, with
  a mail server configuration, with which any other address of a text about a migration
  would be a candidate: the address is found at offset 30, a login word is before it, and
  the body and the loop leave the list of candidates empty.
\<close>

theorem C5_login_address_makes_no_candidate_witness:
  "execAt emailAddressPattern loginBobText 0 =
     Some \<lparr>index = 30, matched = str ''bob@example.com'', groups = [(1, str ''bob@example.com'')]\<rparr>
   \<and> loginBefore exampleRuntime loginBobText 30
   \<and> pushEmail exampleRuntime loginBobText (Some exampleMailConfig)
        \<lparr>index = 30, matched = str ''bob@example.com'', groups = [(1, str ''bob@example.com'')]\<rparr> []
      = Inr []
   \<and> emailLoop exampleRuntime loginBobText (Some exampleMailConfig) 0 [] = Some (Inr [])"
proof -
  have "pushEmail exampleRuntime loginBobText (Some exampleMailConfig)
        \<lparr>index = 30, matched = str ''bob@example.com'', groups = [(1, str ''bob@example.com'')]\<rparr> []
      = Inr []"
    using C5_login_address_makes_no_candidate
      [of exampleRuntime loginBobText
          "\<lparr>index = 30, matched = str ''bob@example.com'', groups = [(1, str ''bob@example.com'')]\<rparr>"
          "Some exampleMailConfig" "[]", THEN conjunct1]
      loginBobText_login
    by simp
  with loginBobText_address loginBobText_login loginBobText_loop show ?thesis by simp
qed

section \<open>Totality of the extractors\<close>

lemma ftpShort_anchor:
  "exec (ftpServerPatterns ! 1) ftpShortText =
     Some \<lparr>index = 0, matched = str ''FTP: files.example.org'',
           groups = [(1, str ''files.example.org'')]\<rparr>"
  by (simp add: regex_defs ftpServerPatterns_def ftpShortText_def)

lemma ftpShort_no_first_anchor:
  "exec (ftpServerPatterns ! 0) ftpShortText = None"
  by (simp add: regex_defs ftpServerPatterns_def ftpShortText_def)

text \<open>\<open>extractDnsRecords\<close> hands its caller \<open>undefined\<close> on every text.\<close>

lemma extractDnsRecords_undefined: "extractDnsRecords text = Undefined"
  by (simp add: extractDnsRecords_def)

text \<open>
  C1. The extractors are not total. On the text \<open>FTP: files.example.org\<close>, which is
  not blank, \<open>extractAllCredentials\<close> calls \<open>extractFtpCredentials\<close> first; the second
  server pattern matches, its loop never ends, and neither call returns, whatever the
  other extractors would do. On the same text, as on every text, \<open>extractEmailAccounts\<close>
  raises a \<open>TypeError\<close>, and \<open>extractDnsRecords\<close> returns \<open>undefined\<close> where a list
  is expected.
\<close>

theorem C1_extraction_does_not_terminate:
  "extractFtpCredentials E ftpShortText = None
   \<and> extractAllCredentials E others noOthers ftpShortText = None
   \<and> extractEmailAccounts E ftpShortText = Some (Inl TypeError)
   \<and> extractDnsRecords ftpShortText = Undefined"
proof -
  have first: "whileExec (ftpServerPatterns ! 0) ftpShortText pushFtpServer [] = Some []"
    using ftpShort_no_first_anchor by (subst whileExec.simps) simp
  have second: "whileExec (ftpServerPatterns ! 1) ftpShortText pushFtpServer [] = None"
    by (rule whileExec_diverges [OF ftpShort_anchor])
  have ftp: "extractFtpCredentials E ftpShortText = None"
    using first second by (simp add: extractFtpCredentials_def ftpServerPatterns_def)
  have "ftpShortText \<noteq> [] \<and> length (trim ftpShortText) \<noteq> 0"
    by (simp add: ftpShortText_def str_def trim_def isWs_def inRanges_def wsRanges_def)
  with ftp have "extractAllCredentials E others noOthers ftpShortText = None"
    by (simp add: extractAllCredentials_def)
  with ftp show ?thesis
    using extractEmailAccounts_raises [of E ftpShortText] extractDnsRecords_undefined [of ftpShortText]
    by simp
qed

section \<open>The formatters\<close>

lemma formatByKind_confidence:
  "formatByKind E c = Inr r \<Longrightarrow> recConfidence r = confOr (confidence c) 1"
  by (auto simp: formatByKind_def formatFTPAccount_def formatWebsite_def formatDomain_def
      formatEmailAccount_def formatGenericCredential_def Let_def
      split: kind.splits sum.splits if_splits)

text \<open>
  C8, as the code has it. Every formatter keeps the confidence a candidate carries when
  that is a number other than 0, and puts 1.0 when the candidate carries none, carries
  \<open>null\<close> or carries 0 (the operator \<open>||\<close> takes 0 for missing); no other value is
  ever put. \<open>formatWebsite\<close> is covered for the candidates on which it returns.
\<close>

theorem C8_confidence_kept_unless_zero:
  "(\<forall>x. confidence c = Val x \<and> x \<noteq> 0 \<longrightarrow>
        f_confidence (formatFTPAccount E c) = x
      \<and> g_confidence (formatGenericCredential E c) = x
      \<and> e_confidence (formatEmailAccount E c) = x
      \<and> d_confidence (formatDomain E c) = x
      \<and> (\<forall>w. formatWebsite E c = Inr w \<longrightarrow> w_confidence w = x)
      \<and> (\<forall>r. formatByKind E c = Inr r \<longrightarrow> recConfidence r = x))
   \<and> (confidence c = Undefined \<or> confidence c = Null \<or> confidence c = Val 0 \<longrightarrow>
        f_confidence (formatFTPAccount E c) = 1
      \<and> g_confidence (formatGenericCredential E c) = 1
      \<and> e_confidence (formatEmailAccount E c) = 1
      \<and> d_confidence (formatDomain E c) = 1
      \<and> (\<forall>w. formatWebsite E c = Inr w \<longrightarrow> w_confidence w = 1)
      \<and> (\<forall>r. formatByKind E c = Inr r \<longrightarrow> recConfidence r = 1))"
proof (intro conjI allI impI)
  fix x
  assume carried: "confidence c = Val x \<and> x \<noteq> 0"
  then have c: "confOr (confidence c) 1 = x" by (simp add: confOr_def)
  show "f_confidence (formatFTPAccount E c) = x" using c by (simp add: formatFTPAccount_def)
  show "g_confidence (formatGenericCredential E c) = x"
    using c by (simp add: formatGenericCredential_def)
  show "e_confidence (formatEmailAccount E c) = x"
    using c by (simp add: formatEmailAccount_def Let_def)
  show "d_confidence (formatDomain E c) = x" using c by (simp add: formatDomain_def)
  show "w_confidence w = x" if "formatWebsite E c = Inr w" for w
    using that c by (auto simp: formatWebsite_def split: sum.splits if_splits)
  show "recConfidence r = x" if "formatByKind E c = Inr r" for r
    using formatByKind_confidence [OF that] c by simp
next
  assume none: "confidence c = Undefined \<or> confidence c = Null \<or> confidence c = Val 0"
  then have c: "confOr (confidence c) 1 = 1" by (auto simp: confOr_def)
  show "f_confidence (formatFTPAccount E c) = 1" using c by (simp add: formatFTPAccount_def)
  show "g_confidence (formatGenericCredential E c) = 1"
    using c by (simp add: formatGenericCredential_def)
  show "e_confidence (formatEmailAccount E c) = 1"
    using c by (simp add: formatEmailAccount_def Let_def)
  show "d_confidence (formatDomain E c) = 1" using c by (simp add: formatDomain_def)
  show "w_confidence w = 1" if "formatWebsite E c = Inr w" for w
    using that c by (auto simp: formatWebsite_def split: sum.splits if_splits)
  show "recConfidence r = 1" if "formatByKind E c = Inr r" for r
    using formatByKind_confidence [OF that] c by simp
qed

text \<open>The theorem at an FTP candidate of confidence 0.7 and at the empty candidate.\<close>

theorem C8_confidence_kept_unless_zero_witness:
  "confidence ftpSureCredential = Val 0.7
   \<and> f_confidence (formatFTPAccount exampleRuntime ftpSureCredential) = 0.7
   \<and> formatByKind exampleRuntime ftpSureCredential
       = Inr (FtpRec (formatFTPAccount exampleRuntime ftpSureCredential))
   \<and> recConfidence (FtpRec (formatFTPAccount exampleRuntime ftpSureCredential)) = 0.7
   \<and> confidence blankCredential = Undefined
   \<and> g_confidence (formatGenericCredential exampleRuntime blankCredential) = 1"
proof -
  have sure: "confidence ftpSureCredential = Val 0.7"
    by (simp add: ftpSureCredential_def ftpZeroConfidence_def blankCredential_def)
  have blank: "confidence blankCredential = Undefined" by (simp add: blankCredential_def)
  have kind: "formatByKind exampleRuntime ftpSureCredential
       = Inr (FtpRec (formatFTPAccount exampleRuntime ftpSureCredential))"
    by (simp add: formatByKind_def credKind_def ftpSureCredential_def ftpZeroConfidence_def
        blankCredential_def)
  have nonzero: "confidence ftpSureCredential = Val 0.7 \<and> (0.7 :: real) \<noteq> 0"
    using sure by simp
  note kept = C8_confidence_kept_unless_zero [of ftpSureCredential exampleRuntime,
      THEN conjunct1, rule_format, OF nonzero]
  note default = C8_confidence_kept_unless_zero [of blankCredential exampleRuntime,
      THEN conjunct2, rule_format, OF disjI1, OF blank]
  from kept have "f_confidence (formatFTPAccount exampleRuntime ftpSureCredential) = 0.7"
    by (rule conjunct1)
  moreover from kept kind
  have "recConfidence (FtpRec (formatFTPAccount exampleRuntime ftpSureCredential)) = 0.7"
    by blast
  moreover from default
  have "g_confidence (formatGenericCredential exampleRuntime blankCredential) = 1"
    by blast
  ultimately show ?thesis using sure blank kind by blast
qed

text \<open>
  C8 as the spec states it fails: a candidate that carries the confidence 0 comes out
  of \<open>formatFTPAccount\<close> with 1.0.
\<close>

theorem C8_zero_confidence_counterexample:
  "confidence ftpZeroConfidence = Val 0
   \<and> f_confidence (formatFTPAccount exampleRuntime ftpZeroConfidence) = 1"
  by (simp add: formatFTPAccount_def confOr_def ftpZeroConfidence_def blankCredential_def)


section \<open>categorizeMigrationData\<close>

lemma kind_partition:
  "length (filter (\<lambda>c. credKind E c = KFtp) cs) + length (filter (\<lambda>c. credKind E c = KWebsite) cs)
   + length (filter (\<lambda>c. credKind E c = KDomain) cs) + length (filter (\<lambda>c. credKind E c = KEmail) cs)
   + length (filter (\<lambda>c. credKind E c = KGeneric) cs) = length cs"
proof (induction cs)
  case Nil
  then show ?case by simp
next
  case (Cons c cs)
  then show ?case by (cases "credKind E c") simp_all
qed

lemma categorizeLoop_buckets:
  "categorizeLoop E cs r = Inr r' \<Longrightarrow>
     ftpAccounts r' = ftpAccounts r @ map (formatFTPAccount E) (filter (\<lambda>c. credKind E c = KFtp) cs)
   \<and> map Inr (websites r') = map Inr (websites r) @ map (formatWebsite E) (filter (\<lambda>c. credKind E c = KWebsite) cs)
   \<and> domains r' = domains r @ map (formatDomain E) (filter (\<lambda>c. credKind E c = KDomain) cs)
   \<and> emailAccounts r' = emailAccounts r @ map (formatEmailAccount E) (filter (\<lambda>c. credKind E c = KEmail) cs)
   \<and> otherCredentials r' = otherCredentials r @ map (formatGenericCredential E) (filter (\<lambda>c. credKind E c = KGeneric) cs)"
proof (induction cs arbitrary: r)
  case Nil
  then show ?case by simp
next
  case (Cons c cs)
  from Cons.prems obtain r1 where step: "categorizeStep E c r = Inr r1"
    and rest: "categorizeLoop E cs r1 = Inr r'"
    by (auto split: sum.splits)
  note IH = Cons.IH [OF rest]
  show ?case
  proof (cases "credKind E c")
    case KFtp
    with step have "r1 = r\<lparr>ftpAccounts := ftpAccounts r @ [formatFTPAccount E c]\<rparr>"
      by (simp add: categorizeStep_def)
    with IH KFtp show ?thesis by simp
  next
    case KWebsite
    with step obtain w where w: "formatWebsite E c = Inr w"
      and "r1 = r\<lparr>websites := websites r @ [w]\<rparr>"
      by (auto simp: categorizeStep_def split: sum.splits)
    with IH KWebsite show ?thesis by simp
  next
    case KDomain
    with step have "r1 = r\<lparr>domains := domains r @ [formatDomain E c]\<rparr>"
      by (simp add: categorizeStep_def)
    with IH KDomain show ?thesis by simp
  next
    case KEmail
    with step have "r1 = r\<lparr>emailAccounts := emailAccounts r @ [formatEmailAccount E c]\<rparr>"
      by (simp add: categorizeStep_def)
    with IH KEmail show ?thesis by simp
  next
    case KGeneric
    with step have "r1 = r\<lparr>otherCredentials := otherCredentials r @ [formatGenericCredential E c]\<rparr>"
      by (simp add: categorizeStep_def)
    with IH KGeneric show ?thesis by simp
  qed
qed

lemma categorizeLoop_returns:
  "(\<And>c. c \<in> set cs \<Longrightarrow> credKind E c = KWebsite \<Longrightarrow> formatWebsite E c \<noteq> Inl TypeError) \<Longrightarrow>
   \<exists>r'. categorizeLoop E cs r = Inr r'"
proof (induction cs arbitrary: r)
  case Nil
  then show ?case by simp
next
  case (Cons c cs)
  have only_type_error: "formatWebsite E c = Inl e \<Longrightarrow> e = TypeError" for e
    by (auto simp: formatWebsite_def split: if_splits option.splits)
  have "\<exists>r1. categorizeStep E c r = Inr r1"
  proof (cases "credKind E c")
    case KWebsite
    with Cons.prems [of c] have "formatWebsite E c \<noteq> Inl TypeError" by simp
    with only_type_error obtain w where "formatWebsite E c = Inr w"
      by (cases "formatWebsite E c") auto
    with KWebsite show ?thesis by (simp add: categorizeStep_def)
  qed (simp_all add: categorizeStep_def)
  then obtain r1 where r1: "categorizeStep E c r = Inr r1" by blast
  from Cons.IH [of r1] Cons.prems obtain r' where "categorizeLoop E cs r1 = Inr r'" by auto
  with r1 show ?case by simp
qed

text \<open>
  What a call that returns gives: each bucket is the list of the formatted credentials of
  its kind, in the order of the input, so every credential is in exactly one bucket and
  the five lengths add up to the length of the input. The call returns whenever
  \<open>formatWebsite\<close> raises on no credential of the website kind.
\<close>

lemma categorize_buckets_when_returned:
  "(categorizeMigrationData E (Some cs) = Inr r \<longrightarrow>
        ftpAccounts r = map (formatFTPAccount E) (filter (\<lambda>c. credKind E c = KFtp) cs)
      \<and> map Inr (websites r) = map (formatWebsite E) (filter (\<lambda>c. credKind E c = KWebsite) cs)
      \<and> domains r = map (formatDomain E) (filter (\<lambda>c. credKind E c = KDomain) cs)
      \<and> emailAccounts r = map (formatEmailAccount E) (filter (\<lambda>c. credKind E c = KEmail) cs)
      \<and> otherCredentials r = map (formatGenericCredential E) (filter (\<lambda>c. credKind E c = KGeneric) cs)
      \<and> length (ftpAccounts r) + length (websites r) + length (domains r)
          + length (emailAccounts r) + length (otherCredentials r) = length cs)
   \<and> ((\<forall>c \<in> set cs. credKind E c = KWebsite \<longrightarrow> formatWebsite E c \<noteq> Inl TypeError) \<longrightarrow>
        (\<exists>r. categorizeMigrationData E (Some cs) = Inr r))"
proof (intro conjI impI)
  assume returned: "categorizeMigrationData E (Some cs) = Inr r"
  have loop: "categorizeLoop E cs emptyCategorized = Inr r"
  proof (cases cs)
    case Nil
    with returned show ?thesis by (simp add: categorizeMigrationData_def)
  next
    case (Cons c cs')
    with returned show ?thesis by (simp add: categorizeMigrationData_def)
  qed
  note buckets = categorizeLoop_buckets [OF loop, simplified emptyCategorized_def, simplified]
  from buckets show "ftpAccounts r = map (formatFTPAccount E) (filter (\<lambda>c. credKind E c = KFtp) cs)"
    by simp
  from buckets show web: "map Inr (websites r) = map (formatWebsite E) (filter (\<lambda>c. credKind E c = KWebsite) cs)"
    by simp
  from buckets show "domains r = map (formatDomain E) (filter (\<lambda>c. credKind E c = KDomain) cs)"
    by simp
  from buckets show "emailAccounts r = map (formatEmailAccount E) (filter (\<lambda>c. credKind E c = KEmail) cs)"
    by simp
  from buckets show "otherCredentials r = map (formatGenericCredential E) (filter (\<lambda>c. credKind E c = KGeneric) cs)"
    by simp
  have "length (websites r) = length (filter (\<lambda>c. credKind E c = KWebsite) cs)"
    using arg_cong [OF web, of length] by simp
  with buckets kind_partition [of E cs]
  show "length (ftpAccounts r) + length (websites r) + length (domains r)
          + length (emailAccounts r) + length (otherCredentials r) = length cs"
    by simp
next
  assume ok: "\<forall>c \<in> set cs. credKind E c = KWebsite \<longrightarrow> formatWebsite E c \<noteq> Inl TypeError"
  then have "\<exists>r. categorizeLoop E cs emptyCategorized = Inr r"
    by (intro categorizeLoop_returns) simp
  then show "\<exists>r. categorizeMigrationData E (Some cs) = Inr r"
    by (cases cs) (auto simp: categorizeMigrationData_def)
qed

lemma websiteGood_formats:
  "credKind exampleRuntime websiteGood = KWebsite
   \<and> formatWebsite exampleRuntime websiteGood \<noteq> Inl TypeError"
  by (simp add: credKind_def systemIncludes_def formatWebsite_def websiteGood_def blankCredential_def
      exampleRuntime_def exampleHostname_def strOr_def str_def)

lemma websiteNoScheme_kind: "credKind exampleRuntime websiteNoScheme = KWebsite"
  by (simp add: credKind_def systemIncludes_def websiteNoScheme_def blankCredential_def str_def)

lemma websiteNoScheme_raises: "formatWebsite exampleRuntime websiteNoScheme = Inl TypeError"
  by (simp add: formatWebsite_def websiteNoScheme_def blankCredential_def exampleRuntime_def
      exampleHostname_def strOr_def str_def)

lemma ftpSure_kind: "credKind exampleRuntime ftpSureCredential = KFtp"
  by (simp add: credKind_def systemIncludes_def ftpSureCredential_def ftpZeroConfidence_def
      blankCredential_def str_def)

text \<open>
  C10. On a website candidate whose \<open>url\<close> is \<open>example.com\<close>, a string that
  \<open>new URL\<close> rejects, \<open>formatWebsite\<close> raises at line 84 and
  \<open>categorizeMigrationData\<close> returns no buckets: the candidate is in none of the five,
  and an FTP candidate categorized before it is lost with it. The sum of the bucket lengths
  is not the length of the input, since there are no buckets.
\<close>

theorem C10_unparsable_url_loses_candidates:
  "credKind exampleRuntime websiteNoScheme = KWebsite
   \<and> url websiteNoScheme = Val (str ''example.com'')
   \<and> urlHostname exampleRuntime (str ''example.com'') = None
   \<and> formatWebsite exampleRuntime websiteNoScheme = Inl TypeError
   \<and> categorizeMigrationData exampleRuntime (Some [websiteNoScheme]) = Inl TypeError
   \<and> credKind exampleRuntime ftpSureCredential = KFtp
   \<and> categorizeMigrationData exampleRuntime (Some [ftpSureCredential, websiteNoScheme]) = Inl TypeError"
proof -
  have "url websiteNoScheme = Val (str ''example.com'')"
    by (simp add: websiteNoScheme_def)
  moreover have "urlHostname exampleRuntime (str ''example.com'') = None"
    by (simp add: exampleRuntime_def exampleHostname_def str_def)
  moreover have "categorizeMigrationData exampleRuntime (Some [websiteNoScheme]) = Inl TypeError"
    by (simp add: categorizeMigrationData_def categorizeStep_def websiteNoScheme_kind
        websiteNoScheme_raises)
  moreover have "categorizeMigrationData exampleRuntime (Some [ftpSureCredential, websiteNoScheme])
        = Inl TypeError"
    by (simp add: categorizeMigrationData_def categorizeStep_def websiteNoScheme_kind
        websiteNoScheme_raises ftpSure_kind)
  ultimately show ?thesis
    using websiteNoScheme_kind websiteNoScheme_raises ftpSure_kind by simp
qed

section \<open>The exports\<close>

lemma formatByKind_error: "formatByKind E c = Inl e \<Longrightarrow> e = TypeError"
  by (auto simp: formatByKind_def formatWebsite_def split: kind.splits sum.splits if_splits option.splits)

lemma categorizeLoop_error: "categorizeLoop E cs r = Inl e \<Longrightarrow> e = TypeError"
proof (induction cs arbitrary: r)
  case Nil
  then show ?case by simp
next
  case (Cons c cs)
  have step: "categorizeStep E c r = Inl e' \<Longrightarrow> e' = TypeError" for e'
    by (auto simp: categorizeStep_def formatWebsite_def
        split: kind.splits sum.splits if_splits option.splits)
  from Cons show ?case by (auto split: sum.splits dest: step)
qed

lemma groupLoop_error: "groupLoop E cs g = Inl e \<Longrightarrow> e = TypeError"
proof (induction cs arbitrary: g)
  case Nil
  then show ?case by simp
next
  case (Cons c cs)
  have step: "groupStep E c g = Inl e' \<Longrightarrow> e' = TypeError" for e'
    by (auto simp: groupStep_def Let_def split: if_splits sum.splits dest: formatByKind_error)
  from Cons show ?case by (auto split: sum.splits dest: step)
qed

lemma mapFormat_error: "mapFormat E cs = Inl e \<Longrightarrow> e = TypeError"
  by (induction cs arbitrary: e) (auto split: sum.splits dest: formatByKind_error)

text \<open>
  C7. \<open>createJsonFile\<close> and \<open>exportCredentialsToCSV\<close> raise their error, with its
  message, when the argument is not an array or is the empty array, whatever the flags.
  On an array that is not empty neither raises that error: the only other error either
  can raise is the \<open>TypeError\<close> of \<open>formatWebsite\<close>.
\<close>

theorem C7_no_export_of_zero_records:
  "createJsonFile E None grouped' categorized'
     = Inl (ExportError (str ''Brak danych uwierzytelniaj'' @ [261] @ str ''cych do eksportu''))
   \<and> createJsonFile E (Some []) grouped' categorized'
     = Inl (ExportError (str ''Brak danych uwierzytelniaj'' @ [261] @ str ''cych do eksportu''))
   \<and> exportCredentialsToCSV E None = Inl (ExportError (str ''Brak danych do eksportu''))
   \<and> exportCredentialsToCSV E (Some []) = Inl (ExportError (str ''Brak danych do eksportu''))
   \<and> (cs \<noteq> [] \<longrightarrow>
        (\<forall>msg. createJsonFile E (Some cs) grouped' categorized' \<noteq> Inl (ExportError msg))
      \<and> (\<forall>msg. exportCredentialsToCSV E (Some cs) \<noteq> Inl (ExportError msg)))"
proof (intro conjI impI allI)
  assume nonempty: "cs \<noteq> []"
  show "createJsonFile E (Some cs) grouped' categorized' \<noteq> Inl (ExportError msg)" for msg
  proof
    assume raised: "createJsonFile E (Some cs) grouped' categorized' = Inl (ExportError msg)"
    with nonempty have "categorizeLoop E cs emptyCategorized = Inl (ExportError msg)
        \<or> groupLoop E cs [] = Inl (ExportError msg) \<or> mapFormat E cs = Inl (ExportError msg)"
      by (auto simp: createJsonFile_def categorizeMigrationData_def groupCredentialsByClient_def
          split: if_splits sum.splits)
    then show False
      using categorizeLoop_error groupLoop_error mapFormat_error by blast
  qed
  show "exportCredentialsToCSV E (Some cs) \<noteq> Inl (ExportError msg)" for msg
  proof
    assume raised: "exportCredentialsToCSV E (Some cs) = Inl (ExportError msg)"
    with nonempty have "categorizeLoop E cs emptyCategorized = Inl (ExportError msg)"
      by (auto simp: exportCredentialsToCSV_def categorizeMigrationData_def
          split: if_splits sum.splits)
    then show False using categorizeLoop_error by blast
  qed
qed (simp_all add: createJsonFile_def exportCredentialsToCSV_def)

lemma ftpSure_flat_export:
  "createJsonFile exampleRuntime (Some [ftpSureCredential]) False False
     = Inr (ExportFlat [FtpRec (formatFTPAccount exampleRuntime ftpSureCredential)])"
  by (simp add: createJsonFile_def formatByKind_def credKind_def ftpSureCredential_def
      ftpZeroConfidence_def blankCredential_def)

lemma ftpSure_csv:
  "exportCredentialsToCSV exampleRuntime (Some [ftpSureCredential])
     = Inr \<lparr>ftpCsv = str ''Server,Username,Password,Port,Encryption'' @ [10]
                      @ [34] @ str ''ftp.example.com'' @ [34, 44, 34] @ str ''alice''
                      @ [34, 44, 34, 34, 44, 34] @ str ''21'' @ [34, 44, 34] @ str ''FTP'' @ [34],
            websitesCsv = [], domainsCsv = [], emailCsv = [], genericCsv = []\<rparr>"
  by (simp add: exportCredentialsToCSV_def categorizeMigrationData_def categorizeStep_def
      credKind_def emptyCategorized_def formatFTPAccount_def ftpSureCredential_def
      ftpZeroConfidence_def blankCredential_def ftpCsvOf_def websitesCsvOf_def domainsCsvOf_def
      emailCsvOf_def genericCsvOf_def csvContent_def csvCell_def showNat.simps orS_def orNull_def
      strOr_def numOr_def confOr_def str_def)

text \<open>The theorem at the array of one FTP candidate, which is exported as it should.\<close>

theorem C7_no_export_of_zero_records_witness:
  "[ftpSureCredential] \<noteq> []
   \<and> createJsonFile exampleRuntime (Some [ftpSureCredential]) False False
       = Inr (ExportFlat [FtpRec (formatFTPAccount exampleRuntime ftpSureCredential)])
   \<and> (\<forall>msg. createJsonFile exampleRuntime (Some [ftpSureCredential]) False False \<noteq> Inl (ExportError msg))
   \<and> (\<forall>msg. exportCredentialsToCSV exampleRuntime (Some [ftpSureCredential]) \<noteq> Inl (ExportError msg))"
proof -
  have nonempty: "[ftpSureCredential] \<noteq> []" by simp
  from C7_no_export_of_zero_records [of exampleRuntime False False "[ftpSureCredential]"]
  have "(\<forall>msg. createJsonFile exampleRuntime (Some [ftpSureCredential]) False False \<noteq> Inl (ExportError msg))
      \<and> (\<forall>msg. exportCredentialsToCSV exampleRuntime (Some [ftpSureCredential]) \<noteq> Inl (ExportError msg))"
    using nonempty by blast
  with ftpSure_flat_export show ?thesis by simp
qed


section \<open>mergeCredentials\<close>

lemma mergeLoop_firstOccurrences:
  "mergeLoop cs seen acc = acc @ filter (\<lambda>c. uniqueKey c \<notin> seen) (firstOccurrences uniqueKey cs)"
proof (induction cs arbitrary: seen acc)
  case Nil
  then show ?case by (simp add: firstOccurrences_Nil)
next
  case (Cons c cs)
  have "filter (\<lambda>y. uniqueKey y \<notin> insert (uniqueKey c) seen) (firstOccurrences uniqueKey cs)
        = filter (\<lambda>y. uniqueKey y \<notin> seen) (filter (\<lambda>y. uniqueKey y \<noteq> uniqueKey c) (firstOccurrences uniqueKey cs))"
    by (auto intro: filter_cong)
  moreover have "uniqueKey c \<in> seen \<Longrightarrow>
        filter (\<lambda>y. uniqueKey y \<notin> seen) (filter (\<lambda>y. uniqueKey y \<noteq> uniqueKey c) (firstOccurrences uniqueKey cs))
        = filter (\<lambda>y. uniqueKey y \<notin> seen) (firstOccurrences uniqueKey cs)"
    by (auto intro: filter_cong)
  ultimately show ?case by (simp add: Cons.IH firstOccurrences_Cons)
qed

lemma mergeCredentials_firstOccurrences:
  "mergeCredentials css = firstOccurrences uniqueKey (concat css)"
  by (simp add: mergeCredentials_def mergeLoop_firstOccurrences)

lemma firstOccurrences_distinct: "distinct (map key (firstOccurrences key xs))"
proof (induction xs)
  case Nil
  then show ?case by (simp add: firstOccurrences_Nil)
next
  case (Cons x xs)
  then show ?case by (auto simp: firstOccurrences_Cons distinct_map_filter)
qed

lemma firstOccurrences_of_distinct:
  "distinct (map key xs) \<Longrightarrow> firstOccurrences key xs = xs"
proof (induction xs)
  case Nil
  then show ?case by (simp add: firstOccurrences_Nil)
next
  case (Cons x xs)
  then have "\<forall>y \<in> set xs. key y \<noteq> key x" by (metis distinct.simps(2) image_eqI list.simps(9) set_map)
  then have "filter (\<lambda>y. key y \<noteq> key x) xs = xs" by (simp add: filter_id_conv)
  with Cons show ?case by (simp add: firstOccurrences_Cons)
qed

lemma firstOccurrences_subseq: "subseq (firstOccurrences key xs) xs"
proof (induction xs)
  case Nil
  then show ?case by (simp add: firstOccurrences_Nil)
next
  case (Cons x xs)
  have "subseq (filter (\<lambda>y. key y \<noteq> key x) (firstOccurrences key xs)) (firstOccurrences key xs)"
    by simp
  with Cons have "subseq (filter (\<lambda>y. key y \<noteq> key x) (firstOccurrences key xs)) xs"
    using subseq_order.order_trans by blast
  then show ?case by (simp add: firstOccurrences_Cons)
qed

text \<open>
  C9. Merging a list that is already merged changes nothing: the keys of a merged list are
  all different. This holds for every list of candidate lists, so for whatever an
  extractor returned.
\<close>

theorem C9_merge_idempotent:
  "mergeCredentials [mergeCredentials css] = mergeCredentials css"
  by (simp add: mergeCredentials_firstOccurrences firstOccurrences_of_distinct
      firstOccurrences_distinct)

text \<open>
  The keys of a merged list are all different, and the merged list is a sublist of the
  flattened input: the candidates kept stay in the order they were first seen.
\<close>

lemma mergeCredentials_distinct_keys: "distinct (map uniqueKey (mergeCredentials css))"
  by (simp add: mergeCredentials_firstOccurrences firstOccurrences_distinct)

lemma mergeCredentials_subseq: "subseq (mergeCredentials css) (concat css)"
  by (simp add: mergeCredentials_firstOccurrences firstOccurrences_subseq)

text \<open>Two candidates tagged ftp with the same server and user name give the first alone,
  whatever their other fields.\<close>

lemma mergeCredentials_same_ftp:
  assumes "cred_type a = Val (str ''ftp'')" "cred_type b = Val (str ''ftp'')"
    and "server a = server b" "username a = username b"
  shows "mergeCredentials [[a], [b]] = [a]"
proof -
  from assms have "uniqueKey a = uniqueKey b" by (simp add: uniqueKey_def)
  then show ?thesis by (simp add: mergeCredentials_def)
qed

lemma mailboxes_merged: "mergeCredentials [[mailboxA, mailboxB]] = [mailboxA]"
  by (simp add: mergeCredentials_def uniqueKey_def mailboxA_def mailboxB_def blankCredential_def
      str_def)

lemma mailboxes_identity:
  "firstOccurrences (identityKey exampleRuntime) (concat [[mailboxA, mailboxB]]) = [mailboxA, mailboxB]"
  by (simp add: firstOccurrences_Cons firstOccurrences_Nil identityKey_def credKind_def
      systemIncludes_def orS_def mailboxA_def mailboxB_def blankCredential_def str_def)

lemma mailboxes_kind:
  "credKind exampleRuntime mailboxA = KEmail \<and> credKind exampleRuntime mailboxB = KEmail"
  by (simp add: credKind_def systemIncludes_def mailboxA_def mailboxB_def blankCredential_def
      str_def)

lemma mailboxes_key:
  "uniqueKey mailboxA = str ''ftp-mail.example.com-undefined''
   \<and> uniqueKey mailboxB = str ''ftp-mail.example.com-undefined''"
  by (simp add: uniqueKey_def mailboxA_def mailboxB_def blankCredential_def str_def)

text \<open>
  C3. Two candidates tagged \<open>email\<close>, which the classifier of
  \<open>categorizeMigrationData\<close> takes as email, with the addresses \<open>a@example.com\<close> and
  \<open>b@example.com\<close> and so with different identity keys, are not both kept: each names
  the mail server \<open>mail.example.com\<close>, the test \<open>cred.server\<close> of line 513 sends both
  to the key of the ftp branch, \<open>ftp-mail.example.com-undefined\<close>, and the merge returns the
  first alone. Keeping the first occurrence per identity key keeps both (lemma
  \<open>mailboxes_identity\<close>).
\<close>

theorem C3_second_mailbox_dropped:
  "credKind exampleRuntime mailboxA = KEmail \<and> credKind exampleRuntime mailboxB = KEmail
   \<and> identityKey exampleRuntime mailboxA = EmailIdentity (Val (str ''a@example.com''))
   \<and> identityKey exampleRuntime mailboxB = EmailIdentity (Val (str ''b@example.com''))
   \<and> uniqueKey mailboxA = str ''ftp-mail.example.com-undefined''
   \<and> uniqueKey mailboxB = str ''ftp-mail.example.com-undefined''
   \<and> identityKey exampleRuntime mailboxA \<noteq> identityKey exampleRuntime mailboxB
   \<and> mergeCredentials [[mailboxA, mailboxB]] = [mailboxA]"
proof -
  have "identityKey exampleRuntime mailboxA = EmailIdentity (Val (str ''a@example.com''))"
    by (simp add: identityKey_def credKind_def systemIncludes_def orS_def mailboxA_def
        blankCredential_def str_def)
  moreover have "identityKey exampleRuntime mailboxB = EmailIdentity (Val (str ''b@example.com''))"
    by (simp add: identityKey_def credKind_def systemIncludes_def orS_def mailboxA_def
        mailboxB_def blankCredential_def str_def)
  ultimately show ?thesis
    using mailboxes_kind mailboxes_key mailboxes_merged by (simp add: str_def)
qed

section \<open>Grouping and flattening\<close>

lemma objectKeys_mset: "mset (objectKeys obj) = mset (map fst obj)"
  by (simp add: objectKeys_def)

lemma mset_concat_map: "mset (concat (map f xs)) = (\<Sum>x \<in># mset xs. mset (f x))"
  by (induction xs) simp_all

lemma mset_concat_map_perm:
  "mset xs = mset ys \<Longrightarrow> mset (concat (map f xs)) = mset (concat (map f ys))"
  by (simp add: mset_concat_map)

lemma lookup_in_creation_order:
  assumes "distinct (map fst obj)"
  shows "concat (map (\<lambda>k. case map_of obj k of None \<Rightarrow> [] | Some v \<Rightarrow> F k v) (map fst obj))
         = flatObj F obj"
proof -
  have found: "map_of obj (fst kv) = Some (snd kv)" if "kv \<in> set obj" for kv
    using map_of_is_SomeI [OF assms, of "fst kv" "snd kv"] that by simp
  show ?thesis
    unfolding flatObj_def map_map
    by (rule arg_cong [where f = concat], rule map_cong) (simp_all add: found)
qed

lemma lookup_by_objectKeys:
  assumes "distinct (map fst obj)"
  shows "mset (concat (map (\<lambda>k. case map_of obj k of None \<Rightarrow> [] | Some v \<Rightarrow> F k v) (objectKeys obj)))
         = mset (flatObj F obj)"
  using mset_concat_map_perm [OF objectKeys_mset] lookup_in_creation_order [OF assms]
  by metis

lemma flatObj_mset_cong:
  "(\<And>k v. (k, v) \<in> set obj \<Longrightarrow> mset (F k v) = mset (G k v)) \<Longrightarrow>
   mset (flatObj F obj) = mset (flatObj G obj)"
  by (induction obj) (auto simp: flatObj_def)

lemma flatten_mset:
  assumes "wellKeyed g"
  shows "mset (flattenGroupedCredentials g) = mset (flatIns g)"
proof -
  let ?F = "\<lambda>cid client. concat (map (flattenTicket cid client) (objectKeys (cl_tickets client)))"
  have keys: "distinct (map fst g)" using assms by (simp add: wellKeyed_def)
  have "flattenGroupedCredentials g
        = concat (map (\<lambda>k. case map_of g k of None \<Rightarrow> [] | Some v \<Rightarrow> ?F k v) (objectKeys g))"
    by (simp add: flattenGroupedCredentials_def flattenClient_def [abs_def])
  then have "mset (flattenGroupedCredentials g) = mset (flatObj ?F g)"
    using lookup_by_objectKeys [OF keys, of ?F] by simp
  also have "\<dots> = mset (flatObj flatClientIns g)"
  proof (rule flatObj_mset_cong)
    fix cid client
    assume "(cid, client) \<in> set g"
    with assms have tk: "distinct (map fst (cl_tickets client))"
      by (auto simp: wellKeyed_def list_all_iff)
    have "?F cid client
          = concat (map (\<lambda>k. case map_of (cl_tickets client) k of None \<Rightarrow> []
                              | Some t \<Rightarrow> flatTicketIns cid (cl_clientName client) k t)
                        (objectKeys (cl_tickets client)))"
      by (simp add: flattenTicket_def [abs_def] flatTicketIns_def cong: option.case_cong)
    then show "mset (?F cid client) = mset (flatClientIns cid client)"
      using lookup_by_objectKeys [OF tk, of "flatTicketIns cid (cl_clientName client)"]
      by (simp add: flatClientIns_def)
  qed
  finally show ?thesis by (simp add: flatIns_def)
qed


lemma updateKey_keys: "map fst (updateKey k f obj) = map fst obj"
  by (induction obj) auto

lemma map_of_updateKey:
  "map_of (updateKey k f obj) k' = (if k' = k then map_option f (map_of obj k) else map_of obj k')"
  by (induction obj) auto

lemma list_all_updateKey:
  "list_all P obj \<Longrightarrow> (\<And>v. (k, v) \<in> set obj \<Longrightarrow> P (k, v) \<Longrightarrow> P (k, f v)) \<Longrightarrow>
   list_all P (updateKey k f obj)"
  by (induction obj) auto

lemma flatObj_append: "flatObj F (obj @ [(k, v)]) = flatObj F obj @ F k v"
  by (simp add: flatObj_def)

lemma flatObj_updateKey:
  "distinct (map fst obj) \<Longrightarrow> map_of obj k = Some v \<Longrightarrow>
   mset (flatObj F (updateKey k f obj)) + mset (F k v) = mset (flatObj F obj) + mset (F k (f v))"
proof (induction obj)
  case Nil
  then show ?case by simp
next
  case (Cons kv obj)
  show ?case
  proof (cases "fst kv = k")
    case True
    with Cons.prems have "snd kv = v" by (cases kv) simp
    with True show ?thesis by (cases kv) (simp add: flatObj_def)
  next
    case False
    with Cons.prems have "map_of obj k = Some v" "distinct (map fst obj)" by (cases kv; simp)+
    from Cons.IH [OF this(2) this(1)] False show ?thesis
      by (cases kv) (simp add: flatObj_def)
  qed
qed

lemma flatObj_updateKey_same:
  assumes "distinct (map fst obj)" "map_of obj k = Some v" "mset (F k (f v)) = mset (F k v)"
  shows "mset (flatObj F (updateKey k f obj)) = mset (flatObj F obj)"
  using flatObj_updateKey [OF assms(1,2), of F f] assms(3) by simp

lemma flatObj_updateKey_add:
  assumes "distinct (map fst obj)" "map_of obj k = Some v" "mset (F k (f v)) = mset (F k v) + A"
  shows "mset (flatObj F (updateKey k f obj)) = mset (flatObj F obj) + A"
  using flatObj_updateKey [OF assms(1,2), of F f] assms(3) by simp

lemma ensureTicket_flat: "flatClientIns cid (ensureTicket E tid client) = flatClientIns cid client"
  by (simp add: ensureTicket_def flatClientIns_def flatObj_append flatTicketIns_def newTicket_def)

lemma ensureTicket_has:
  "\<exists>t. map_of (cl_tickets (ensureTicket E tid client)) tid = Some t"
  by (cases "map_of (cl_tickets client) tid") (auto simp: ensureTicket_def map_add_Some_iff)

lemma ensureTicket_distinct:
  "distinct (map fst (cl_tickets client)) \<Longrightarrow> distinct (map fst (cl_tickets (ensureTicket E tid client)))"
  by (auto simp: ensureTicket_def map_of_eq_None_iff)

lemma ensureTicket_name: "cl_clientName (ensureTicket E tid client) = cl_clientName client"
  by (simp add: ensureTicket_def)

lemma pushInto_flat:
  assumes "distinct (map fst (cl_tickets client))" "map_of (cl_tickets client) tid = Some t"
  shows "mset (flatClientIns cid (pushInto tid r client))
         = mset (flatClientIns cid client)
           + {#\<lparr>fl_record = r, fl_clientId = cid, fl_clientName = cl_clientName client,
                fl_ticketId = tid\<rparr>#}"
proof -
  let ?F = "flatTicketIns cid (cl_clientName client)"
  have "mset (flatObj ?F (updateKey tid (pushCredential r) (cl_tickets client)))
        = mset (flatObj ?F (cl_tickets client))
          + {#\<lparr>fl_record = r, fl_clientId = cid, fl_clientName = cl_clientName client,
               fl_ticketId = tid\<rparr>#}"
    by (rule flatObj_updateKey_add [OF assms]) (simp add: flatTicketIns_def pushCredential_def)
  then show ?thesis by (simp add: flatClientIns_def pushInto_def)
qed

lemma pushInto_distinct:
  "distinct (map fst (cl_tickets client)) \<Longrightarrow> distinct (map fst (cl_tickets (pushInto tid r client)))"
  by (simp add: pushInto_def updateKey_keys)

lemma pushInto_name: "cl_clientName (pushInto tid r client) = cl_clientName client"
  by (simp add: pushInto_def)


lemma nameAfter_Nil_grouped: "nameAfter [] cs k = firstClientName cs k"
  by (simp add: nameAfter_def)

lemma groupStep_effect:
  assumes wk: "wellKeyed g" and step: "groupStep E c g = Inr g'"
  shows "\<exists>r. formatByKind E c = Inr r \<and> wellKeyed g'
             \<and> mset (flatIns g') = mset (flatIns g) + {#flatAs (nameAfter g (c # cs) (clientKey c)) c r#}
             \<and> (\<forall>k. nameAfter g' cs k = nameAfter g (c # cs) k)"
proof -
  let ?cid = "clientKey c" and ?tid = "ticketKey c"
  let ?g1 = "if map_of g ?cid = None then g @ [(?cid, newClient E c)] else g"
  let ?g2 = "updateKey ?cid (ensureTicket E ?tid) ?g1"
  from step obtain r where r: "formatByKind E c = Inr r"
    and g': "g' = updateKey ?cid (pushInto ?tid r) ?g2"
    by (auto simp: groupStep_def Let_def split: if_splits sum.splits)
  have keys: "distinct (map fst g)" and tickets: "list_all (\<lambda>kv. distinct (map fst (cl_tickets (snd kv)))) g"
    using wk by (simp_all add: wellKeyed_def)
  \<comment> \<open>the client entry is there after line 27\<close>
  have keys1: "distinct (map fst ?g1)"
    using keys by (auto simp: map_of_eq_None_iff)
  have tickets1: "list_all (\<lambda>kv. distinct (map fst (cl_tickets (snd kv)))) ?g1"
    using tickets by (simp add: newClient_def)
  have flat1: "mset (flatIns ?g1) = mset (flatIns g)"
    by (simp add: flatIns_def flatObj_append flatClientIns_def newClient_def flatObj_def)
  obtain cl1 where cl1: "map_of ?g1 ?cid = Some cl1"
    and name1: "cl_clientName cl1 = nameAfter g (c # cs) ?cid"
  proof (cases "map_of g ?cid")
    case None
    then have "map_of ?g1 ?cid = Some (newClient E c)" by (simp add: map_add_Some_iff)
    moreover have "cl_clientName (newClient E c) = nameAfter g (c # cs) ?cid"
      using None by (simp add: nameAfter_def newClient_def)
    ultimately show ?thesis using that by blast
  next
    case (Some cl)
    then show ?thesis using that [of cl] by (simp add: nameAfter_def)
  qed
  have others1: "map_of ?g1 k = map_of g k" if "k \<noteq> ?cid" for k
    using that by (auto simp: map_add_def split: option.splits)
  have cl1_tickets: "distinct (map fst (cl_tickets cl1))"
    using tickets1 map_of_SomeD [OF cl1] by (auto simp: list_all_iff)
  \<comment> \<open>the ticket is there after line 38\<close>
  let ?cl2 = "ensureTicket E ?tid cl1"
  have keys2: "distinct (map fst ?g2)" using keys1 by (simp only: updateKey_keys)
  have tickets2: "list_all (\<lambda>kv. distinct (map fst (cl_tickets (snd kv)))) ?g2"
    by (rule list_all_updateKey [OF tickets1]) (simp add: ensureTicket_distinct)
  have flat2: "mset (flatIns ?g2) = mset (flatIns ?g1)"
    unfolding flatIns_def
    by (rule flatObj_updateKey_same [OF keys1 cl1]) (simp add: ensureTicket_flat)
  have cl2: "map_of ?g2 ?cid = Some ?cl2" using cl1 by (simp only: map_of_updateKey) simp
  have cl2_tickets: "distinct (map fst (cl_tickets ?cl2))"
    by (rule ensureTicket_distinct [OF cl1_tickets])
  obtain t where t: "map_of (cl_tickets ?cl2) ?tid = Some t"
    using ensureTicket_has by blast
  \<comment> \<open>the push\<close>
  have keys3: "distinct (map fst g')" using keys2 unfolding g' by (simp only: updateKey_keys)
  have tickets3: "list_all (\<lambda>kv. distinct (map fst (cl_tickets (snd kv)))) g'"
    unfolding g' by (rule list_all_updateKey [OF tickets2]) (simp add: pushInto_distinct)
  have flat3: "mset (flatIns g') = mset (flatIns ?g2)
                 + {#\<lparr>fl_record = r, fl_clientId = ?cid, fl_clientName = cl_clientName ?cl2,
                      fl_ticketId = ?tid\<rparr>#}"
    unfolding flatIns_def g'
    by (rule flatObj_updateKey_add [OF keys2 cl2]) (rule pushInto_flat [OF cl2_tickets t])
  have cl3: "map_of g' ?cid = Some (pushInto ?tid r ?cl2)"
    unfolding g' using cl2 by (simp only: map_of_updateKey) simp
  have others3: "map_of g' k = map_of g k" if "k \<noteq> ?cid" for k
    unfolding g' using that others1 [OF that] by (simp only: map_of_updateKey) simp
  have names: "nameAfter g' cs k = nameAfter g (c # cs) k" for k
  proof (cases "k = ?cid")
    case True
    with cl3 name1 show ?thesis
      by (simp add: nameAfter_def pushInto_name ensureTicket_name)
  next
    case False
    with others3 [OF False] show ?thesis by (auto simp: nameAfter_def split: option.splits)
  qed
  have "wellKeyed g'" using keys3 tickets3 by (simp add: wellKeyed_def)
  moreover have "mset (flatIns g') = mset (flatIns g) + {#flatAs (nameAfter g (c # cs) ?cid) c r#}"
    using flat3 flat2 flat1 name1 by (simp add: flatAs_def ensureTicket_name)
  ultimately show ?thesis using r names by blast
qed

lemma groupLoop_effect:
  "wellKeyed g \<Longrightarrow> groupLoop E cs g = Inr g' \<Longrightarrow>
   \<exists>rs. map (formatByKind E) cs = map Inr rs \<and> wellKeyed g'
        \<and> mset (flatIns g') = mset (flatIns g)
            + mset (map (\<lambda>cr. flatAs (nameAfter g cs (clientKey (fst cr))) (fst cr) (snd cr)) (zip cs rs))"
proof (induction cs arbitrary: g)
  case Nil
  then show ?case by simp
next
  case (Cons c cs)
  from Cons.prems(2) obtain g1 where step: "groupStep E c g = Inr g1"
    and rest: "groupLoop E cs g1 = Inr g'"
    by (auto split: sum.splits)
  from groupStep_effect [OF Cons.prems(1) step, of cs] obtain r where
    r: "formatByKind E c = Inr r" and wk1: "wellKeyed g1"
    and flat1: "mset (flatIns g1) = mset (flatIns g) + {#flatAs (nameAfter g (c # cs) (clientKey c)) c r#}"
    and names: "\<And>k. nameAfter g1 cs k = nameAfter g (c # cs) k"
    by blast
  from Cons.IH [OF wk1 rest] obtain rs where
    rs: "map (formatByKind E) cs = map Inr rs" and wk': "wellKeyed g'"
    and flat': "mset (flatIns g') = mset (flatIns g1)
            + mset (map (\<lambda>cr. flatAs (nameAfter g1 cs (clientKey (fst cr))) (fst cr) (snd cr)) (zip cs rs))"
    by blast
  have "map (formatByKind E) (c # cs) = map Inr (r # rs)" using r rs by simp
  moreover have "mset (flatIns g') = mset (flatIns g)
            + mset (map (\<lambda>cr. flatAs (nameAfter g (c # cs) (clientKey (fst cr))) (fst cr) (snd cr))
                        (zip (c # cs) (r # rs)))"
    using flat' flat1 by (simp add: names)
  ultimately show ?case using wk' by blast
qed


lemma groupLoop_returns:
  "(\<And>c. c \<in> set cs \<Longrightarrow> clientKey c \<notin> set objectPrototypeKeys
        \<and> ticketKey c \<notin> set objectPrototypeKeys \<and> formatByKind E c \<noteq> Inl TypeError) \<Longrightarrow>
   \<exists>g'. groupLoop E cs g = Inr g'"
proof (induction cs arbitrary: g)
  case Nil
  then show ?case by simp
next
  case (Cons c cs)
  have only_type_error: "formatByKind E c = Inl e \<Longrightarrow> e = TypeError" for e
    by (auto simp: formatByKind_def formatWebsite_def
        split: kind.splits sum.splits if_splits option.splits)
  from Cons.prems [of c] have ok: "clientKey c \<notin> set objectPrototypeKeys"
    "ticketKey c \<notin> set objectPrototypeKeys" "formatByKind E c \<noteq> Inl TypeError" by simp_all
  from ok(3) only_type_error obtain r where "formatByKind E c = Inr r"
    by (cases "formatByKind E c") auto
  with ok(1,2) obtain g1 where g1: "groupStep E c g = Inr g1"
    by (simp add: groupStep_def Let_def)
  from Cons.IH [of g1] Cons.prems obtain g' where "groupLoop E cs g1 = Inr g'" by auto
  with g1 show ?case by simp
qed

text \<open>
  C6, as the code has it. \<open>groupCredentialsByClient\<close> stores each record formatted, under
  the client key (\<open>clientId\<close>, or \<open>unknown\<close> when it is missing or empty) and the
  ticket key (\<open>ticketId\<close>, or \<open>general\<close>), and keeps one client name for each
  client key: that of the first record with the key, or \<open>Nieznany Klient\<close>. Whenever
  the round trip returns, its result is, up to order, the list of the formatted records,
  each with its client key, the client name of its group and its ticket key. It returns
  whenever no key is a property of \<open>Object.prototype\<close> and no formatter raises.
\<close>

theorem C6_round_trip_of_formatted_records:
  "(regroup E cs = Inr flat \<longrightarrow>
      (\<exists>rs. map (formatByKind E) cs = map Inr rs
           \<and> mset flat = mset (map2 (roundTrip cs) cs rs)))
   \<and> ((\<forall>c \<in> set cs. clientKey c \<notin> set objectPrototypeKeys
            \<and> ticketKey c \<notin> set objectPrototypeKeys \<and> formatByKind E c \<noteq> Inl TypeError) \<longrightarrow>
       (\<exists>flat. regroup E cs = Inr flat))"
proof (intro conjI impI)
  assume returned: "regroup E cs = Inr flat"
  then obtain g where g: "groupCredentialsByClient E (Some cs) = Inr g"
    and flat: "flat = flattenGroupedCredentials g"
    by (auto simp: regroup_def split: sum.splits)
  have loop: "groupLoop E cs [] = Inr g"
    using g by (cases cs) (simp_all add: groupCredentialsByClient_def)
  have start: "wellKeyed []" by (simp add: wellKeyed_def)
  from groupLoop_effect [OF start loop] obtain rs where
    rs: "map (formatByKind E) cs = map Inr rs" and wk: "wellKeyed g"
    and m: "mset (flatIns g) = mset (flatIns [])
            + mset (map (\<lambda>cr. flatAs (nameAfter [] cs (clientKey (fst cr))) (fst cr) (snd cr)) (zip cs rs))"
    by blast
  have "map (\<lambda>cr. flatAs (nameAfter [] cs (clientKey (fst cr))) (fst cr) (snd cr)) (zip cs rs)
        = map2 (roundTrip cs) cs rs"
    by (simp add: nameAfter_Nil_grouped flatAs_def roundTrip_def case_prod_beta)
  with m have "mset (flatIns g) = mset (map2 (roundTrip cs) cs rs)"
    by (simp add: flatIns_def flatObj_def)
  with flatten_mset [OF wk] flat rs
  show "\<exists>rs. map (formatByKind E) cs = map Inr rs \<and> mset flat = mset (map2 (roundTrip cs) cs rs)"
    by auto
next
  assume ok: "\<forall>c \<in> set cs. clientKey c \<notin> set objectPrototypeKeys
            \<and> ticketKey c \<notin> set objectPrototypeKeys \<and> formatByKind E c \<noteq> Inl TypeError"
  then have "\<exists>g. groupLoop E cs [] = Inr g" by (intro groupLoop_returns) simp
  then have "\<exists>g. groupCredentialsByClient E (Some cs) = Inr g"
    by (cases cs) (auto simp: groupCredentialsByClient_def)
  then show "\<exists>flat. regroup E cs = Inr flat" by (auto simp: regroup_def)
qed

lemmas client_examples =
  annaCredential_def borysCredential_def blankCredential_def exampleRuntime_def

lemma anna_borys_regrouped:
  "regroup exampleRuntime [annaCredential, borysCredential] =
     Inr [\<lparr>fl_record = FtpRec (formatFTPAccount exampleRuntime annaCredential),
           fl_clientId = str ''c1'', fl_clientName = str ''Anna'', fl_ticketId = str ''general''\<rparr>,
          \<lparr>fl_record = FtpRec (formatFTPAccount exampleRuntime borysCredential),
           fl_clientId = str ''c1'', fl_clientName = str ''Anna'', fl_ticketId = str ''general''\<rparr>]"
  by (simp add: regroup_def groupCredentialsByClient_def groupStep_def clientKey_def ticketKey_def
      objectPrototypeKeys_def newClient_def newTicket_def ensureTicket_def pushInto_def
      pushCredential_def formatByKind_def credKind_def flattenGroupedCredentials_def
      flattenClient_def flattenTicket_def objectKeys_def isArrayIndex_def strOr_def
      orNull_def orS_def Let_def client_examples str_def)

text \<open>The theorem at two FTP records of one client.\<close>

theorem C6_round_trip_of_formatted_records_witness:
  "clientKey annaCredential \<notin> set objectPrototypeKeys
   \<and> ticketKey annaCredential \<notin> set objectPrototypeKeys
   \<and> formatByKind exampleRuntime annaCredential \<noteq> Inl TypeError
   \<and> clientKey borysCredential \<notin> set objectPrototypeKeys
   \<and> ticketKey borysCredential \<notin> set objectPrototypeKeys
   \<and> formatByKind exampleRuntime borysCredential \<noteq> Inl TypeError
   \<and> (\<exists>flat rs. regroup exampleRuntime [annaCredential, borysCredential] = Inr flat
         \<and> map (formatByKind exampleRuntime) [annaCredential, borysCredential] = map Inr rs
         \<and> mset flat = mset (map2 (roundTrip [annaCredential, borysCredential])
                                   [annaCredential, borysCredential] rs))"
proof -
  have each: "clientKey annaCredential \<notin> set objectPrototypeKeys
      \<and> ticketKey annaCredential \<notin> set objectPrototypeKeys
      \<and> formatByKind exampleRuntime annaCredential \<noteq> Inl TypeError
      \<and> clientKey borysCredential \<notin> set objectPrototypeKeys
      \<and> ticketKey borysCredential \<notin> set objectPrototypeKeys
      \<and> formatByKind exampleRuntime borysCredential \<noteq> Inl TypeError"
    by (simp add: clientKey_def ticketKey_def objectPrototypeKeys_def formatByKind_def credKind_def
        strOr_def client_examples str_def)
  then have ok: "\<forall>c \<in> set [annaCredential, borysCredential]. clientKey c \<notin> set objectPrototypeKeys
        \<and> ticketKey c \<notin> set objectPrototypeKeys \<and> formatByKind exampleRuntime c \<noteq> Inl TypeError"
    by simp
  note inst = C6_round_trip_of_formatted_records
    [where E = exampleRuntime and cs = "[annaCredential, borysCredential]"]
  from inst [THEN conjunct2, THEN mp, OF ok] obtain flat where
    flat: "regroup exampleRuntime [annaCredential, borysCredential] = Inr flat" by blast
  from C6_round_trip_of_formatted_records
    [where E = exampleRuntime and cs = "[annaCredential, borysCredential]" and flat = flat,
     THEN conjunct1, THEN mp, OF flat]
  obtain rs where "map (formatByKind exampleRuntime) [annaCredential, borysCredential] = map Inr rs"
    "mset flat = mset (map2 (roundTrip [annaCredential, borysCredential])
                            [annaCredential, borysCredential] rs)" by blast
  with each flat show ?thesis by blast
qed

text \<open>
  C6 as the spec states it fails: of two records of the client \<open>c1\<close> entered under
  the names Anna and Borys, the second comes back with the name Anna.
\<close>

theorem C6_client_name_counterexample:
  "clientName borysCredential = Val (str ''Borys'')
   \<and> regroup exampleRuntime [annaCredential, borysCredential] =
       Inr [\<lparr>fl_record = FtpRec (formatFTPAccount exampleRuntime annaCredential),
             fl_clientId = str ''c1'', fl_clientName = str ''Anna'', fl_ticketId = str ''general''\<rparr>,
            \<lparr>fl_record = FtpRec (formatFTPAccount exampleRuntime borysCredential),
             fl_clientId = str ''c1'', fl_clientName = str ''Anna'', fl_ticketId = str ''general''\<rparr>]"
  using anna_borys_regrouped by (simp add: client_examples)


end
